theory Spec2Isabelle
  imports Complex_Main "HOL-Library.AList"
begin

section \<open>JavaScript strings\<close>

text \<open>
  A JavaScript string is a sequence of UTF-16 code units.  The model uses \<^typ>\<open>string\<close>:
  one \<^typ>\<open>char\<close> per code unit, restricted to the code units U+0000 .. U+00FF.
  In that range the white space of \<^verbatim>\<open>String.prototype.trim\<close> and of the regular
  expression class \<^verbatim>\<open>\s\<close> is the same set: TAB, LF, VT, FF, CR, SPACE and NBSP;
  the class \<^verbatim>\<open>\w\<close> is \<^verbatim>\<open>[A-Za-z0-9_]\<close>.
\<close>

definition isWhiteSpace :: "char \<Rightarrow> bool" where
  "isWhiteSpace c \<longleftrightarrow> of_char c \<in> {9, 10, 11, 12, 13, 32, 160 :: nat}"

definition isWordChar :: "char \<Rightarrow> bool" where
  "isWordChar c \<longleftrightarrow>
     (let n = (of_char c :: nat)
      in (48 \<le> n \<and> n \<le> 57) \<or> (65 \<le> n \<and> n \<le> 90) \<or> n = 95 \<or> (97 \<le> n \<and> n \<le> 122))"

definition toLowerChar :: "char \<Rightarrow> char" where
  \<comment> \<open>A-Z, and the Latin-1 capitals U+00C0 .. U+00DE without the multiplication sign\<close>
  "toLowerChar c =
     (let n = (of_char c :: nat)
      in if (65 \<le> n \<and> n \<le> 90) \<or> (192 \<le> n \<and> n \<le> 222 \<and> n \<noteq> 215)
         then char_of (n + 32) else c)"

definition toLowerCase :: "string \<Rightarrow> string" where
  "toLowerCase s = map toLowerChar s"

definition trim :: "string \<Rightarrow> string" where
  "trim s = rev (dropWhile isWhiteSpace (rev (dropWhile isWhiteSpace s)))"

definition removePunctuation :: "string \<Rightarrow> string" where
  \<comment> \<open>\<^verbatim>\<open>.replace(/[^\w\s]/g, '')\<close>\<close>
  "removePunctuation s = filter (\<lambda>c. isWordChar c \<or> isWhiteSpace c) s"

fun collapseFrom :: "bool \<Rightarrow> string \<Rightarrow> string" where
  \<comment> \<open>the flag says that the previous code unit was white space of the current run\<close>
  "collapseFrom inRun [] = []"
| "collapseFrom inRun (c # cs) =
     (if isWhiteSpace c
      then (if inRun then collapseFrom True cs else CHR '' '' # collapseFrom True cs)
      else c # collapseFrom False cs)"

definition collapseWhitespace :: "string \<Rightarrow> string" where
  \<comment> \<open>\<^verbatim>\<open>.replace(/\s+/g, ' ')\<close>: every maximal run of white space becomes one space\<close>
  "collapseWhitespace s = collapseFrom False s"

definition startsWith :: "string \<Rightarrow> string \<Rightarrow> bool" where
  "startsWith s p \<longleftrightarrow> take (length p) s = p"

fun includesStr :: "string \<Rightarrow> string \<Rightarrow> bool" where
  \<comment> \<open>\<^verbatim>\<open>s.includes(p)\<close>: \<open>p\<close> occurs in \<open>s\<close> as a substring (the empty string does,
      in every string)\<close>
  "includesStr [] p = (p = [])"
| "includesStr (c # cs) p = (startsWith (c # cs) p \<or> includesStr cs p)"

fun replaceFirst :: "string \<Rightarrow> string \<Rightarrow> string" where
  \<comment> \<open>\<^verbatim>\<open>s.replace(p, '')\<close> with a string pattern: the first occurrence is removed\<close>
  "replaceFirst [] p = []"
| "replaceFirst (c # cs) p =
     (if startsWith (c # cs) p then drop (length p) (c # cs) else c # replaceFirst cs p)"

fun splitSpace :: "string \<Rightarrow> string list" where
  \<comment> \<open>\<^verbatim>\<open>s.split(' ')\<close>: always at least one piece, empty pieces are kept\<close>
  "splitSpace [] = [[]]"
| "splitSpace (c # cs) =
     (if c = CHR '' '' then [] # splitSpace cs
      else (case splitSpace cs of [] \<Rightarrow> [[c]] | w # ws \<Rightarrow> (c # w) # ws))"

section \<open>The mapping service (mappingService.js)\<close>

text \<open>
  \<^verbatim>\<open>mappingData\<close> is a plain object from \<^verbatim>\<open>JSON.parse\<close> (or the literal of
  \<^verbatim>\<open>createFallbackMapping\<close>): its own keys in the order of \<^verbatim>\<open>Object.keys\<close>, each
  with its array of video file names.  It is \<^verbatim>\<open>null\<close> until loading has finished.
  The confidence is a JavaScript number; the model computes with the reals, so the
  weights 1 and 0.8 and their quotient by the word count are exact.
\<close>

type_synonym dictionary = "(string \<times> string list) list"

datatype property = Own "string list" | Inherited | Undefined

definition objectPrototypeNames :: "string list" where
  \<comment> \<open>the properties every plain object inherits from \<^verbatim>\<open>Object.prototype\<close>; each is a
      function or an object: truthy, and not iterable\<close>
  "objectPrototypeNames =
     [''constructor'', ''__defineGetter__'', ''__defineSetter__'', ''hasOwnProperty'',
      ''__lookupGetter__'', ''__lookupSetter__'', ''isPrototypeOf'', ''propertyIsEnumerable'',
      ''toString'', ''valueOf'', ''__proto__'', ''toLocaleString'']"

definition getProperty :: "dictionary \<Rightarrow> string \<Rightarrow> property" where
  \<comment> \<open>\<^verbatim>\<open>this.mappingData[key]\<close>: an own property shadows an inherited one\<close>
  "getProperty d k =
     (case map_of d k of
        Some vs \<Rightarrow> Own vs
      | None \<Rightarrow> if k \<in> set objectPrototypeNames then Inherited else Undefined)"

datatype error = InvalidTextInput | TypeError | ProviderError string

record matches =
  videoFiles :: "string list"
  captions :: "string list"
  confidence :: real
  matchedPhrases :: "string list"

record progress =
  found :: matches
  remainingText :: string
  totalConfidence :: real
  matchCount :: nat

definition sortedPhrases :: "dictionary \<Rightarrow> string list" where
  \<comment> \<open>\<^verbatim>\<open>Object.keys(d).sort((a, b) => b.length - a.length)\<close>: stable, longest first\<close>
  "sortedPhrases d = sort_key (\<lambda>k. - int (length k)) (map fst d)"

definition pushMatch :: "string \<Rightarrow> string list \<Rightarrow> matches \<Rightarrow> matches" where
  "pushMatch phrase vs m =
     m\<lparr>videoFiles := videoFiles m @ vs,
       captions := captions m @ [phrase],
       matchedPhrases := matchedPhrases m @ [phrase]\<rparr>"

fun phraseLoop :: "dictionary \<Rightarrow> string list \<Rightarrow> progress \<Rightarrow> error + progress" where
  "phraseLoop d [] p = Inr p"
| "phraseLoop d (phrase # phrases) p =
     (if includesStr (remainingText p) phrase
      then (case getProperty d phrase of
              Own vs \<Rightarrow>
                phraseLoop d phrases
                  (p\<lparr>found := pushMatch phrase vs (found p),
                     remainingText := trim (replaceFirst (remainingText p) phrase),
                     totalConfidence := totalConfidence p + 1,
                     matchCount := matchCount p + 1\<rparr>)
            | Inherited \<Rightarrow> Inl TypeError
            | Undefined \<Rightarrow> Inl TypeError)
      else phraseLoop d phrases p)"

fun wordLoop :: "dictionary \<Rightarrow> string list \<Rightarrow> progress \<Rightarrow> error + progress" where
  "wordLoop d [] p = Inr p"
| "wordLoop d (word # ws) p =
     (case getProperty d word of
        Own vs \<Rightarrow>
          wordLoop d ws
            (p\<lparr>found := pushMatch word vs (found p),
               totalConfidence := totalConfidence p + 8 / 10,
               matchCount := matchCount p + 1\<rparr>)
      | Inherited \<Rightarrow> Inl TypeError
      | Undefined \<Rightarrow> wordLoop d ws p)"

definition noMatches :: matches where
  "noMatches = \<lparr>videoFiles = [], captions = [], confidence = 0, matchedPhrases = []\<rparr>"

definition fallbackMatches :: matches where
  "fallbackMatches =
     \<lparr>videoFiles = [''NOT-UNDERSTAND.mp4''],
      captions = [''I don't understand''],
      confidence = 1 / 10,
      matchedPhrases = [''fallback'']\<rparr>"

definition finish :: "string \<Rightarrow> progress \<Rightarrow> matches" where
  \<comment> \<open>lines 168-180: the overall confidence, and the fallback when no video was found\<close>
  "finish text p =
     (let totalWords = length (splitSpace text);
          m = (found p)\<lparr>confidence :=
                 (if matchCount p > 0 then totalConfidence p / real totalWords else 0)\<rparr>
      in if length (videoFiles m) = 0 then fallbackMatches else m)"

definition findMatches :: "dictionary option \<Rightarrow> string \<Rightarrow> error + matches" where
  "findMatches mappingData text =
     (case mappingData of
        None \<Rightarrow> Inr noMatches
      | Some d \<Rightarrow>
          (case getProperty d text of
             Own vs \<Rightarrow>
               Inr \<lparr>videoFiles = vs, captions = [text], confidence = 1, matchedPhrases = [text]\<rparr>
           | Inherited \<Rightarrow> Inl TypeError
           | Undefined \<Rightarrow>
               (case phraseLoop d (sortedPhrases d)
                       \<lparr>found = noMatches, remainingText = text,
                        totalConfidence = 0, matchCount = 0\<rparr> of
                  Inl e \<Rightarrow> Inl e
                | Inr p \<Rightarrow>
                    (case wordLoop d
                            (filter (\<lambda>word. length word > 0) (splitSpace (remainingText p))) p of
                       Inl e \<Rightarrow> Inl e
                     | Inr q \<Rightarrow> Inr (finish text q)))))"

definition normalizeText :: "string \<Rightarrow> string" where
  "normalizeText text =
     collapseWhitespace (removePunctuation (trim (toLowerCase text)))"

record sign =
  url :: string
  filename :: string
  duration :: int

record mappingResult =
  signs :: "sign list"
  resultCaptions :: "string list"
  resultConfidence :: real
  resultMatchedPhrases :: "string list"

text \<open>
  The service object.  \<^verbatim>\<open>getVideoDuration\<close> looks a file name up in the vocabulary
  table, which is data outside the source tree: it is the field \<open>videoDuration\<close>.
  The field \<^verbatim>\<open>processingTime\<close> of the result is a difference of wall-clock readings and
  is left out.
\<close>

record mappingService =
  mappingData :: "dictionary option"
  cdnBaseUrl :: string
  videoDuration :: "string \<Rightarrow> int"

definition mapTextToSigns :: "mappingService \<Rightarrow> string \<Rightarrow> error + mappingResult" where
  \<comment> \<open>the argument is a string; \<^verbatim>\<open>!text\<close> holds of the empty string\<close>
  "mapTextToSigns svc text =
     (if text = [] then Inl InvalidTextInput
      else (case findMatches (mappingData svc) (normalizeText text) of
              Inl e \<Rightarrow> Inl e
            | Inr m \<Rightarrow>
                Inr \<lparr>signs = map (\<lambda>f. \<lparr>url = cdnBaseUrl svc @ f, filename = f,
                                        duration = videoDuration svc f\<rparr>) (videoFiles m),
                     resultCaptions = captions m,
                     resultConfidence = confidence m,
                     resultMatchedPhrases = matchedPhrases m\<rparr>))"

definition createFallbackMapping :: dictionary where
  "createFallbackMapping =
     [(''hello'', [''HELLO.mp4'']),
      (''hi'', [''HELLO.mp4'']),
      (''thank you'', [''THANK-YOU.mp4'']),
      (''thanks'', [''THANK-YOU.mp4'']),
      (''yes'', [''YES.mp4'']),
      (''no'', [''NO.mp4'']),
      (''please'', [''PLEASE.mp4'']),
      (''sorry'', [''SORRY.mp4'']),
      (''help'', [''HELP.mp4'']),
      (''stop'', [''STOP.mp4'']),
      (''water'', [''NEED-WATER.mp4'']),
      (''bathroom'', [''BATHROOM.mp4'']),
      (''emergency'', [''EMERGENCY.mp4''])]"

definition fallbackService :: mappingService where
  \<comment> \<open>the service after a failed load: the fallback mapping, an empty vocabulary (every
      duration is the default 2000) and the default CDN base URL\<close>
  "fallbackService =
     \<lparr>mappingData = Some createFallbackMapping,
      cdnBaseUrl = ''https://your-cdn-domain.com/videos/'',
      videoDuration = (\<lambda>f. 2000)\<rparr>"

section \<open>The stream controller (StreamController)\<close>

text \<open>
  One controller object serves every socket.  Its state is the registry
  \<^verbatim>\<open>activeConnections\<close> (a \<^verbatim>\<open>Map\<close>: one entry per key, in insertion order), the
  stream objects that the speech provider has handed out (a heap: a connection holds a
  reference to its stream), the events sent so far with \<^verbatim>\<open>socket.emit\<close>, oldest
  first, and the calls of \<^verbatim>\<open>handleStreamingResult\<close> that are suspended at their
  \<^verbatim>\<open>await\<close>, oldest first.  Readings of the clock are arguments.  The time stamps
  inside events are left out.

  A listener runs without interruption up to its end or its first \<^verbatim>\<open>await\<close>.  The
  listeners of the events that arrive in one turn of the event loop run one after the
  other; the suspended calls resume when the turn ends, in the order in which they were
  suspended.  Which events share a turn is for the environment to say.

  A stream is an object of the provider's library.  \<^verbatim>\<open>end\<close> is recorded on it and
  raises nothing.  What \<^verbatim>\<open>write\<close> does with a chunk is for the library to say: it
  takes the chunk, or it throws, or it reports an error to the \<^verbatim>\<open>error\<close> listeners of
  the stream before it returns.  Everything else the provider does with the stream
  arrives as a provider event.
\<close>

type_synonym socketId = string

record sessionConfig =
  encoding :: string
  sampleRate :: nat
  languageCode :: string
  interimResults :: bool
  enableWordTimeOffsets :: bool
  model :: string
  useEnhanced :: bool

record options =
  optEncoding :: "string option"
  optSampleRate :: "nat option"
  optLanguageCode :: "string option"
  optInterimResults :: "bool option"

datatype audioData = Base64 string | ArrayBuf "nat list" | Buf "nat list"

datatype audioBuffer = FromBase64 string | Bytes "nat list"

record recognizeStream =
  destroyed :: bool
  written :: "audioBuffer list"
  endCalls :: nat

record connection =
  streamRef :: nat  \<comment> \<open>the field \<^verbatim>\<open>recognizeStream\<close>: a reference to the stream object\<close>
  config :: sessionConfig
  startTime :: int
  lastActivity :: int

datatype event =
    StreamingStarted socketId sessionConfig
  | StreamingError string "error option"
  | SocketError string "error option"
  | TranscriptUpdate string real bool
  | SignsUpdate string "sign list" "string list" real
  | MappingError string error
  | StreamingEnded
  | StreamingStopped

record suspended =
  \<comment> \<open>a call of \<^verbatim>\<open>handleStreamingResult\<close> at its \<^verbatim>\<open>await\<close>: the socket and the
      transcript it holds, and how the promise of \<^verbatim>\<open>mapTextToSigns\<close> was settled\<close>
  ofSocket :: socketId
  ofTranscript :: string
  outcome :: "error + mappingResult"

record controller =
  activeConnections :: "(socketId \<times> connection) list"
  streams :: "nat \<Rightarrow> recognizeStream"
  allocated :: nat
  emitted :: "(socketId \<times> event) list"
  pending :: "suspended list"

datatype creation = Created | ReturnedNothing | Threw string

definition emit :: "socketId \<Rightarrow> event \<Rightarrow> controller \<Rightarrow> controller" where
  "emit socket ev st = st\<lparr>emitted := emitted st @ [(socket, ev)]\<rparr>"

definition orDefault :: "'a \<Rightarrow> 'a option \<Rightarrow> 'a \<Rightarrow> 'a" where
  \<comment> \<open>\<^verbatim>\<open>x || d\<close> where \<open>falsy\<close> is the falsy value of the type\<close>
  "orDefault falsy x d = (case x of None \<Rightarrow> d | Some v \<Rightarrow> if v = falsy then d else v)"

definition makeConfig :: "options \<Rightarrow> sessionConfig" where
  "makeConfig opts =
     \<lparr>encoding = orDefault [] (optEncoding opts) ''WEBM_OPUS'',
      sampleRate = orDefault 0 (optSampleRate opts) 48000,
      languageCode = orDefault [] (optLanguageCode opts) ''en-US'',
      interimResults = (optInterimResults opts \<noteq> Some False),
      enableWordTimeOffsets = False,
      model = ''latest_short'',
      useEnhanced = True\<rparr>"

definition newStream :: recognizeStream where
  "newStream = \<lparr>destroyed = False, written = [], endCalls = 0\<rparr>"

definition startStreamingRecognition ::
    "creation \<Rightarrow> int \<Rightarrow> socketId \<Rightarrow> options \<Rightarrow> controller \<Rightarrow> error option \<times> controller" where
  \<comment> \<open>the first argument is what \<^verbatim>\<open>speechService.createStreamingRecognition\<close> does;
      the first component of the result is the error thrown, if any\<close>
  "startStreamingRecognition c now socket opts st =
     (let sessionConfig = makeConfig opts;
          failed = (\<lambda>e. (Some e,
                      emit socket
                        (StreamingError ''Failed to start streaming recognition'' (Some e)) st))
      in case c of
           Threw msg \<Rightarrow> failed (ProviderError msg)
         | ReturnedNothing \<Rightarrow> failed (ProviderError ''Failed to create streaming recognition'')
         | Created \<Rightarrow>
             (None,
              emit socket (StreamingStarted socket sessionConfig)
                (st\<lparr>streams := (streams st)(allocated st := newStream),
                    allocated := allocated st + 1,
                    activeConnections :=
                      AList.update socket
                        \<lparr>streamRef = allocated st, config = sessionConfig,
                         startTime = now, lastActivity = now\<rparr>
                        (activeConnections st)\<rparr>)))"

definition onStartStreaming ::
    "creation \<Rightarrow> int \<Rightarrow> socketId \<Rightarrow> options \<Rightarrow> controller \<Rightarrow> controller" where
  \<comment> \<open>the listener of \<^verbatim>\<open>start-streaming\<close>\<close>
  "onStartStreaming c now socket opts st =
     (case startStreamingRecognition c now socket opts st of
        (None, st') \<Rightarrow> st'
      | (Some e, st') \<Rightarrow>
          emit socket (SocketError ''Failed to start streaming recognition'' None) st')"

definition writeStream :: "nat \<Rightarrow> audioBuffer \<Rightarrow> controller \<Rightarrow> controller" where
  "writeStream r b st =
     st\<lparr>streams := (streams st)(r := (streams st r)\<lparr>written := written (streams st r) @ [b]\<rparr>)\<rparr>"

definition endStream :: "nat \<Rightarrow> controller \<Rightarrow> controller" where
  \<comment> \<open>\<^verbatim>\<open>recognizeStream.end()\<close>: the call is counted; the stream is destroyed later, by
      the stream machinery, not by this call\<close>
  "endStream r st =
     st\<lparr>streams := (streams st)(r := (streams st r)\<lparr>endCalls := endCalls (streams st r) + 1\<rparr>)\<rparr>"

definition stopStreamingRecognition :: "socketId \<Rightarrow> controller \<Rightarrow> controller" where
  "stopStreamingRecognition socket st =
     emit socket StreamingStopped
       (case map_of (activeConnections st) socket of
          None \<Rightarrow> st
        | Some connection \<Rightarrow>
            (let st1 = (if \<not> destroyed (streams st (streamRef connection))
                        then endStream (streamRef connection) st else st)
             in st1\<lparr>activeConnections := AList.delete socket (activeConnections st1)\<rparr>))"

definition onStreamError :: "socketId \<Rightarrow> string \<Rightarrow> controller \<Rightarrow> controller" where
  \<comment> \<open>the listener of \<^verbatim>\<open>error\<close> that \<^verbatim>\<open>startStreamingRecognition\<close> puts on the stream\<close>
  "onStreamError socket msg st =
     stopStreamingRecognition socket
       (emit socket (StreamingError ''Speech recognition error'' (Some (ProviderError msg))) st)"

definition onStreamEnd :: "socketId \<Rightarrow> controller \<Rightarrow> controller" where
  \<comment> \<open>the listener of \<^verbatim>\<open>end\<close>\<close>
  "onStreamEnd socket st = stopStreamingRecognition socket (emit socket StreamingEnded st)"

datatype writeOutcome = Accepted | WriteThrew error | StreamErrored string

definition toBuffer :: "audioData \<Rightarrow> audioBuffer" where
  "toBuffer audio =
     (case audio of Base64 s \<Rightarrow> FromBase64 s | ArrayBuf bs \<Rightarrow> Bytes bs | Buf bs \<Rightarrow> Bytes bs)"

definition processStreamingAudio ::
    "writeOutcome \<Rightarrow> int \<Rightarrow> socketId \<Rightarrow> audioData \<Rightarrow> controller \<Rightarrow> controller" where
  \<comment> \<open>the first argument is what \<^verbatim>\<open>recognizeStream.write\<close> does, if it is called\<close>
  "processStreamingAudio w now socket audio st =
     (case map_of (activeConnections st) socket of
        None \<Rightarrow> emit socket (SocketError ''No active streaming session'' None) st
      | Some connection \<Rightarrow>
          (let st1 = st\<lparr>activeConnections :=
                         AList.update socket (connection\<lparr>lastActivity := now\<rparr>)
                           (activeConnections st)\<rparr>
           in if \<not> destroyed (streams st1 (streamRef connection))
              then (case w of
                      Accepted \<Rightarrow> writeStream (streamRef connection) (toBuffer audio) st1
                    | WriteThrew e \<Rightarrow>
                        emit socket (SocketError ''Failed to process audio data'' (Some e)) st1
                    | StreamErrored msg \<Rightarrow> onStreamError socket msg st1)
              else emit socket (StreamingError ''Streaming session ended'' None) st1))"

record alternative =
  transcript :: string
  altConfidence :: "real option"

record recognitionResult =
  alternatives :: "alternative list"
  isFinal :: bool

record streamingData =
  results :: "recognitionResult list option"

definition handleStreamingResult ::
    "mappingService \<Rightarrow> socketId \<Rightarrow> streamingData \<Rightarrow> controller \<Rightarrow> controller" where
  \<comment> \<open>the call up to its end or its \<^verbatim>\<open>await\<close>.  \<^verbatim>\<open>mapTextToSigns\<close> has no
      \<^verbatim>\<open>await\<close> of its own: its promise is settled when the call returns, and
      \<^verbatim>\<open>handleStreamingResult\<close> is suspended on it\<close>
  "handleStreamingResult svc socket data st =
     (case results data of
        None \<Rightarrow> st
      | Some [] \<Rightarrow> st
      | Some (result # _) \<Rightarrow>
          (case alternatives result of
             [] \<Rightarrow>
               emit socket
                 (SocketError ''Failed to process recognition result'' (Some TypeError)) st
           | alt # _ \<Rightarrow>
               (let st1 = emit socket
                            (TranscriptUpdate (transcript alt)
                               (orDefault 0 (altConfidence alt) (8 / 10)) (isFinal result)) st
                in if isFinal result \<and> trim (transcript alt) \<noteq> []
                   then st1\<lparr>pending := pending st1 @
                               [\<lparr>ofSocket = socket, ofTranscript = transcript alt,
                                 outcome = mapTextToSigns svc (transcript alt)\<rparr>]\<rparr>
                   else st1)))"

definition resume :: "suspended \<Rightarrow> controller \<Rightarrow> controller" where
  \<comment> \<open>the rest of \<^verbatim>\<open>handleStreamingResult\<close>, after its \<^verbatim>\<open>await\<close>\<close>
  "resume k st =
     (case outcome k of
        Inr r \<Rightarrow>
          emit (ofSocket k)
            (SignsUpdate (ofTranscript k) (signs r) (resultCaptions r) (resultConfidence r)) st
      | Inl e \<Rightarrow> emit (ofSocket k) (MappingError ''Failed to map text to signs'' e) st)"

fun resumeAll :: "suspended list \<Rightarrow> controller \<Rightarrow> controller" where
  "resumeAll [] st = st"
| "resumeAll (k # ks) st = resumeAll ks (resume k st)"

definition endOfTurn :: "controller \<Rightarrow> controller" where
  \<comment> \<open>the suspended calls resume, oldest first; none of them suspends again\<close>
  "endOfTurn st = resumeAll (pending st) (st\<lparr>pending := []\<rparr>)"

datatype providerEvent = Data streamingData | Failed string | Ended

definition onProviderEvent ::
    "mappingService \<Rightarrow> socketId \<Rightarrow> providerEvent \<Rightarrow> controller \<Rightarrow> controller" where
  \<comment> \<open>the listeners of \<^verbatim>\<open>data\<close>, \<^verbatim>\<open>error\<close> and \<^verbatim>\<open>end\<close> that
      \<^verbatim>\<open>startStreamingRecognition\<close> puts on the stream; each closes over the socket\<close>
  "onProviderEvent svc socket ev st =
     (case ev of
        Data d \<Rightarrow> handleStreamingResult svc socket d st
      | Failed msg \<Rightarrow> onStreamError socket msg st
      | Ended \<Rightarrow> onStreamEnd socket st)"

datatype step = Arrives providerEvent | TurnEnds

fun deliver ::
    "mappingService \<Rightarrow> socketId \<Rightarrow> step list \<Rightarrow> controller \<Rightarrow> controller" where
  \<comment> \<open>a run of the event loop for the stream of one socket: provider events arrive, and
      turns end in between\<close>
  "deliver svc socket [] st = st"
| "deliver svc socket (Arrives ev # steps) st =
     deliver svc socket steps (onProviderEvent svc socket ev st)"
| "deliver svc socket (TurnEnds # steps) st = deliver svc socket steps (endOfTurn st)"

definition timeout :: int where
  "timeout = 5 * 60 * 1000"

definition stale :: "int \<Rightarrow> connection \<Rightarrow> bool" where
  "stale now connection \<longleftrightarrow> now - lastActivity connection > timeout"

fun sweepEntries :: "int \<Rightarrow> (socketId \<times> connection) list \<Rightarrow> controller \<Rightarrow> controller" where
  "sweepEntries now [] st = st"
| "sweepEntries now ((socketId, connection) # entries) st =
     sweepEntries now entries
       (if stale now connection
        then (let st1 = st\<lparr>activeConnections := AList.delete socketId (activeConnections st)\<rparr>
              in if \<not> destroyed (streams st1 (streamRef connection))
                 then endStream (streamRef connection) st1 else st1)
        else st)"

definition cleanupTick :: "int \<Rightarrow> controller \<Rightarrow> controller" where
  \<comment> \<open>the body of the interval callback of \<^verbatim>\<open>startCleanupTimer\<close>, run at time \<open>now\<close>\<close>
  "cleanupTick now st = sweepEntries now (activeConnections st) st"

definition wellFormed :: "controller \<Rightarrow> bool" where
  \<comment> \<open>a \<^verbatim>\<open>Map\<close> has one entry per key; every stream was handed out by the provider, and
      to one connection only\<close>
  "wellFormed st \<longleftrightarrow>
     distinct (map fst (activeConnections st)) \<and>
     distinct (map (streamRef \<circ> snd) (activeConnections st)) \<and>
     list_all (\<lambda>e. streamRef (snd e) < allocated st) (activeConnections st)"

definition initialController :: controller where
  "initialController =
     \<lparr>activeConnections = [], streams = (\<lambda>r. newStream), allocated = 0, emitted = [],
      pending = []\<rparr>"

definition noKeyOccurs :: "dictionary \<Rightarrow> string \<Rightarrow> bool" where
  \<comment> \<open>no key of the dictionary occurs in the text: the text matches zero keys\<close>
  "noKeyOccurs d t \<longleftrightarrow> (\<forall>k \<in> fst ` set d. \<not> includesStr t k)"

definition noInheritedWord :: "string \<Rightarrow> bool" where
  \<comment> \<open>no word of the text names a property inherited from \<^verbatim>\<open>Object.prototype\<close>\<close>
  "noInheritedWord t \<longleftrightarrow> (\<forall>w \<in> set (splitSpace t). w \<notin> set objectPrototypeNames)"

fun isTranscriptUpdate :: "event \<Rightarrow> bool" where
  "isTranscriptUpdate (TranscriptUpdate t c f) = True"
| "isTranscriptUpdate ev = False"

subsection \<open>Particular states and inputs\<close>

definition noOptions :: options where
  "noOptions =
     \<lparr>optEncoding = None, optSampleRate = None, optLanguageCode = None,
      optInterimResults = None\<rparr>"

definition oneSession :: controller where
  \<comment> \<open>socket \<^verbatim>\<open>s1\<close> has started streaming at time 1000 and holds stream 0; the event
      log has been read out\<close>
  "oneSession =
     (snd (startStreamingRecognition Created 1000 ''s1'' noOptions initialController))
       \<lparr>emitted := []\<rparr>"

definition destroyStream :: "nat \<Rightarrow> controller \<Rightarrow> controller" where
  \<comment> \<open>the stream machinery destroys a stream (after its end or an error)\<close>
  "destroyStream r st = st\<lparr>streams := (streams st)(r := (streams st r)\<lparr>destroyed := True\<rparr>)\<rparr>"

definition transcriptData :: "string \<Rightarrow> bool \<Rightarrow> streamingData" where
  \<comment> \<open>a provider response with one result of one alternative and no confidence\<close>
  "transcriptData t final =
     \<lparr>results = Some [\<lparr>alternatives = [\<lparr>transcript = t, altConfidence = None\<rparr>],
                        isFinal = final\<rparr>]\<rparr>"

definition blankKeyService :: mappingService where
  \<comment> \<open>a dictionary whose only key is the empty string, the normalized form of a phrase
      made of punctuation\<close>
  "blankKeyService = fallbackService\<lparr>mappingData := Some [([], [''BLANK.mp4''])]\<rparr>"

subsection \<open>Strings as normalization leaves them\<close>

fun singleSpaced :: "bool \<Rightarrow> string \<Rightarrow> bool" where
  \<comment> \<open>all white space is single spaces; the flag says that a space came just before\<close>
  "singleSpaced prev [] = True"
| "singleSpaced prev (c # cs) =
     (if isWhiteSpace c then c = CHR '' '' \<and> \<not> prev \<and> singleSpaced True cs
      else singleSpaced False cs)"

definition settled :: "string \<Rightarrow> bool" where
  \<comment> \<open>lower case, no punctuation, single spaces: what one pass of normalization yields\<close>
  "settled s \<longleftrightarrow>
     (\<forall>c \<in> set s. toLowerChar c = c \<and> (isWordChar c \<or> isWhiteSpace c)) \<and> singleSpaced False s"

section \<open>Substrings and words\<close>

lemma startsWith_iff: "startsWith s p \<longleftrightarrow> (\<exists>b. s = p @ b)"
  unfolding startsWith_def
  by (metis append_eq_conv_conj append_take_drop_id)

lemma includesStr_iff: "includesStr s p \<longleftrightarrow> (\<exists>a b. s = a @ p @ b)"
proof (induction s)
  case Nil
  then show ?case by auto
next
  case (Cons c cs)
  show ?case
  proof
    assume "includesStr (c # cs) p"
    then consider "startsWith (c # cs) p" | "includesStr cs p" by auto
    then show "\<exists>a b. c # cs = a @ p @ b"
    proof cases
      case 1
      then obtain b where "c # cs = p @ b" by (auto simp: startsWith_iff)
      then have "c # cs = [] @ p @ b" by simp
      then show ?thesis by blast
    next
      case 2
      then obtain a b where "cs = a @ p @ b" using Cons.IH by blast
      then have "c # cs = (c # a) @ p @ b" by simp
      then show ?thesis by blast
    qed
  next
    assume "\<exists>a b. c # cs = a @ p @ b"
    then obtain a b where ab: "c # cs = a @ p @ b" by blast
    show "includesStr (c # cs) p"
    proof (cases a)
      case Nil
      with ab have "startsWith (c # cs) p" by (auto simp: startsWith_iff)
      then show ?thesis by simp
    next
      case (Cons x a')
      with ab have "cs = a' @ p @ b" by simp
      then have "includesStr cs p" using Cons.IH by blast
      then show ?thesis by simp
    qed
  qed
qed

lemma includesStr_self: "includesStr s s"
  unfolding includesStr_iff by (metis append_Nil append_Nil2)

lemma splitSpace_nonempty: "splitSpace s \<noteq> []"
  by (induction s) (auto split: list.splits)

lemma splitSpace_hd_prefix: "\<exists>b. s = hd (splitSpace s) @ b"
  by (induction s) (auto split: list.splits)

lemma splitSpace_substring:
  "w \<in> set (splitSpace s) \<Longrightarrow> \<exists>a b. s = a @ w @ b"
proof (induction s arbitrary: w)
  case Nil
  then show ?case by simp
next
  case (Cons c cs)
  show ?case
  proof (cases "c = CHR '' ''")
    case True
    with Cons.prems consider "w = []" | "w \<in> set (splitSpace cs)" by auto
    then show ?thesis
    proof cases
      case 1
      then have "c # cs = [] @ w @ (c # cs)" by simp
      then show ?thesis by blast
    next
      case 2
      then obtain a b where "cs = a @ w @ b" using Cons.IH by blast
      then have "c # cs = (c # a) @ w @ b" by simp
      then show ?thesis by blast
    qed
  next
    case False
    obtain w0 ws where sp: "splitSpace cs = w0 # ws"
      using splitSpace_nonempty [of cs] by (cases "splitSpace cs") auto
    with False Cons.prems consider "w = c # w0" | "w \<in> set ws" by auto
    then show ?thesis
    proof cases
      case 1
      obtain b where "cs = w0 @ b" using splitSpace_hd_prefix [of cs] sp by auto
      with 1 have "c # cs = [] @ w @ b" by simp
      then show ?thesis by blast
    next
      case 2
      with sp have "w \<in> set (splitSpace cs)" by simp
      then obtain a b where "cs = a @ w @ b" using Cons.IH by blast
      then have "c # cs = (c # a) @ w @ b" by simp
      then show ?thesis by blast
    qed
  qed
qed

lemma splitSpace_includes: "w \<in> set (splitSpace s) \<Longrightarrow> includesStr s w"
  by (simp add: includesStr_iff splitSpace_substring)

lemma prototype_names_one_word: "n \<in> set objectPrototypeNames \<Longrightarrow> splitSpace n = [n]"
  by (auto simp: objectPrototypeNames_def)

section \<open>The mapping when nothing matches\<close>

lemma getProperty_Undefined:
  "k \<notin> fst ` set d \<Longrightarrow> k \<notin> set objectPrototypeNames \<Longrightarrow> getProperty d k = Undefined"
  by (simp add: getProperty_def map_of_eq_None_iff [THEN iffD2])

lemma phraseLoop_no_match:
  "\<forall>k \<in> set ps. \<not> includesStr (remainingText p) k \<Longrightarrow> phraseLoop d ps p = Inr p"
  by (induction ps) auto

lemma wordLoop_no_match:
  "\<forall>w \<in> set ws. getProperty d w = Undefined \<Longrightarrow> wordLoop d ws p = Inr p"
  by (induction ws) auto

lemma set_sortedPhrases: "set (sortedPhrases d) = fst ` set d"
  by (simp add: sortedPhrases_def)

lemma findMatches_fallback:
  assumes nokey: "noKeyOccurs d t" and noproto: "noInheritedWord t"
  shows "findMatches (Some d) t = Inr fallbackMatches"
proof -
  have t_key: "t \<notin> fst ` set d"
    using nokey includesStr_self unfolding noKeyOccurs_def by blast
  have t_proto: "t \<notin> set objectPrototypeNames"
  proof
    assume inh: "t \<in> set objectPrototypeNames"
    then have "t \<in> set (splitSpace t)" by (simp add: prototype_names_one_word)
    with noproto inh show False unfolding noInheritedWord_def by blast
  qed
  have exact: "getProperty d t = Undefined"
    using t_key t_proto by (rule getProperty_Undefined)
  let ?p = "\<lparr>found = noMatches, remainingText = t, totalConfidence = 0, matchCount = 0\<rparr>"
  have phrases: "phraseLoop d (sortedPhrases d) ?p = Inr ?p"
    using nokey by (intro phraseLoop_no_match) (simp add: set_sortedPhrases noKeyOccurs_def)
  have "\<forall>w \<in> set (filter (\<lambda>word. length word > 0) (splitSpace t)). getProperty d w = Undefined"
  proof
    fix w assume "w \<in> set (filter (\<lambda>word. length word > 0) (splitSpace t))"
    then have w: "w \<in> set (splitSpace t)" by simp
    then have "includesStr t w" by (rule splitSpace_includes)
    with nokey have "w \<notin> fst ` set d" unfolding noKeyOccurs_def by blast
    moreover from w noproto have "w \<notin> set objectPrototypeNames"
      unfolding noInheritedWord_def by blast
    ultimately show "getProperty d w = Undefined" by (rule getProperty_Undefined)
  qed
  then have words: "wordLoop d (filter (\<lambda>word. length word > 0) (splitSpace t)) ?p = Inr ?p"
    by (rule wordLoop_no_match)
  have "finish t ?p = fallbackMatches"
    by (simp add: finish_def noMatches_def)
  with exact phrases words show ?thesis
    by (simp add: findMatches_def)
qed

text \<open>
  Claim C2, as amended.  For every non-empty string whose normalized form contains no
  key of the loaded dictionary and no word that names an inherited property of the
  dictionary object, \<open>mapTextToSigns\<close> succeeds, and its result is exactly the fallback
  entry: the one video \<^verbatim>\<open>NOT-UNDERSTAND.mp4\<close>, the one caption and confidence 0.1.
  White-space-only strings are among these inputs.  The empty string is rejected as
  invalid input.
\<close>

theorem mapTextToSigns_fallback:
  assumes "mappingData svc = Some d" and "text \<noteq> []"
    and "noKeyOccurs d (normalizeText text)"
    and "noInheritedWord (normalizeText text)"
  shows "mapTextToSigns svc text =
           Inr \<lparr>signs = [\<lparr>url = cdnBaseUrl svc @ ''NOT-UNDERSTAND.mp4'',
                          filename = ''NOT-UNDERSTAND.mp4'',
                          duration = videoDuration svc ''NOT-UNDERSTAND.mp4''\<rparr>],
                resultCaptions = [''I don't understand''],
                resultConfidence = 1 / 10,
                resultMatchedPhrases = [''fallback'']\<rparr> \<and>
         mapTextToSigns svc [] = Inl InvalidTextInput"
  using assms by (simp add: mapTextToSigns_def findMatches_fallback fallbackMatches_def)

text \<open>The theorem at the input of two spaces, with the fallback dictionary.\<close>

theorem mapTextToSigns_fallback_witness:
  "mapTextToSigns fallbackService ''  '' =
     Inr \<lparr>signs = [\<lparr>url = ''https://your-cdn-domain.com/videos/NOT-UNDERSTAND.mp4'',
                    filename = ''NOT-UNDERSTAND.mp4'',
                    duration = 2000\<rparr>],
          resultCaptions = [''I don't understand''],
          resultConfidence = 1 / 10,
          resultMatchedPhrases = [''fallback'']\<rparr>"
proof -
  have n: "normalizeText ''  '' = []" by code_simp
  have 1: "mappingData fallbackService = Some createFallbackMapping"
    by (simp add: fallbackService_def)
  have 2: "''  '' \<noteq> []" by simp
  have 3: "noKeyOccurs createFallbackMapping (normalizeText ''  '')"
    unfolding n by (simp add: noKeyOccurs_def createFallbackMapping_def)
  have 4: "noInheritedWord (normalizeText ''  '')"
    unfolding n by (simp add: noInheritedWord_def objectPrototypeNames_def)
  show ?thesis
    using mapTextToSigns_fallback [OF 1 2 3 4] by (simp add: fallbackService_def)
qed

text \<open>
  Against claim C2 as stated: the empty string matches no key, and it is rejected by
  the guard at the head of \<open>mapTextToSigns\<close>, although it is a string.
\<close>

theorem mapTextToSigns_empty_string_rejected:
  "noKeyOccurs createFallbackMapping (normalizeText []) \<and>
   mapTextToSigns fallbackService [] = Inl InvalidTextInput"
proof -
  have "normalizeText [] = []" by code_simp
  then show ?thesis
    by (simp add: noKeyOccurs_def createFallbackMapping_def mapTextToSigns_def)
qed

section \<open>Confidence and normalization at particular inputs\<close>

text \<open>
  Claim C3 says that the confidence of every result lies between 0 and 1.  With the
  fallback dictionary the one-word input \<^verbatim>\<open>nothing\<close> contains the keys \<^verbatim>\<open>hi\<close> and
  \<^verbatim>\<open>no\<close>: two phrase matches of weight 1 over a word count of 1.  The code returns
  confidence 2.
\<close>

theorem confidence_of_nothing_is_two:
  "mapTextToSigns fallbackService ''nothing'' =
     Inr \<lparr>signs = [\<lparr>url = ''https://your-cdn-domain.com/videos/HELLO.mp4'',
                     filename = ''HELLO.mp4'', duration = 2000\<rparr>,
                   \<lparr>url = ''https://your-cdn-domain.com/videos/NO.mp4'',
                     filename = ''NO.mp4'', duration = 2000\<rparr>],
          resultCaptions = [''hi'', ''no''],
          resultConfidence = 2,
          resultMatchedPhrases = [''hi'', ''no'']\<rparr>"
  by code_simp

text \<open>
  Claim C5 says that normalization is idempotent.  The code trims before it removes
  punctuation, so the space after a leading full stop survives the first pass and is
  trimmed by the second: the two passes differ on \<^verbatim>\<open>. a\<close>.
\<close>

theorem normalizeText_twice_differs:
  "normalizeText ''. a'' = '' a'' \<and> normalizeText (normalizeText ''. a'') = ''a''"
  by code_simp

section \<open>Normalization after the first pass\<close>

text \<open>
  How far normalization is from idempotent: the first pass yields a settled string,
  with at most one space left at either end; a second pass only trims it, and a third
  pass changes nothing.
\<close>

lemma toLowerChar_idem: "toLowerChar (toLowerChar c) = toLowerChar c"
  by (auto simp: toLowerChar_def Let_def)

lemma space_facts: "isWhiteSpace CHR '' ''" "toLowerChar CHR '' '' = CHR '' ''"
  by (simp_all add: isWhiteSpace_def toLowerChar_def)

lemma set_collapseFrom: "set (collapseFrom b s) \<subseteq> insert CHR '' '' (set s)"
  by (induction s arbitrary: b) auto

lemma singleSpaced_collapseFrom: "singleSpaced b (collapseFrom b s)"
  by (induction s arbitrary: b) (auto simp: space_facts)

lemma collapseFrom_fixed: "singleSpaced b s \<Longrightarrow> collapseFrom b s = s"
  by (induction s arbitrary: b) auto

lemma singleSpaced_weaken: "singleSpaced b s \<Longrightarrow> singleSpaced False s"
  by (cases s) auto

lemma singleSpaced_prefix: "singleSpaced b (s @ t) \<Longrightarrow> singleSpaced b s"
  by (induction s arbitrary: b) (auto split: if_splits)

lemma singleSpaced_dropWhile:
  "singleSpaced b s \<Longrightarrow> singleSpaced False (dropWhile isWhiteSpace s)"
proof (induction s arbitrary: b)
  case Nil
  then show ?case by simp
next
  case (Cons c cs)
  show ?case
  proof (cases "isWhiteSpace c")
    case True
    with Cons.prems have "singleSpaced True cs" by simp
    then have "singleSpaced False (dropWhile isWhiteSpace cs)" by (rule Cons.IH)
    with True show ?thesis by simp
  next
    case False
    with Cons.prems show ?thesis by simp
  qed
qed

lemma trim_prefix:
  "dropWhile isWhiteSpace s =
     trim s @ rev (takeWhile isWhiteSpace (rev (dropWhile isWhiteSpace s)))"
proof -
  let ?a = "dropWhile isWhiteSpace s"
  have "rev (takeWhile isWhiteSpace (rev ?a) @ dropWhile isWhiteSpace (rev ?a)) = ?a"
    by (simp only: takeWhile_dropWhile_id rev_rev_ident)
  then show ?thesis by (simp only: rev_append trim_def)
qed

lemma singleSpaced_trim: "singleSpaced b s \<Longrightarrow> singleSpaced False (trim s)"
proof -
  assume "singleSpaced b s"
  then have "singleSpaced False (dropWhile isWhiteSpace s)" by (rule singleSpaced_dropWhile)
  then have "singleSpaced False
               (trim s @ rev (takeWhile isWhiteSpace (rev (dropWhile isWhiteSpace s))))"
    using trim_prefix [of s] by simp
  then show ?thesis by (rule singleSpaced_prefix)
qed

lemma set_trim: "set (trim s) \<subseteq> set s"
proof -
  have "set (trim s) \<subseteq> set (dropWhile isWhiteSpace s)"
    by (metis trim_def set_rev set_dropWhileD subsetI)
  also have "\<dots> \<subseteq> set s" by (auto dest: set_dropWhileD)
  finally show ?thesis .
qed

lemma trim_no_edges:
  "trim s = [] \<or> (\<not> isWhiteSpace (hd (trim s)) \<and> \<not> isWhiteSpace (last (trim s)))"
proof (cases "trim s = []")
  case True
  then show ?thesis by simp
next
  case False
  let ?a = "dropWhile isWhiteSpace s"
  let ?b = "dropWhile isWhiteSpace (rev ?a)"
  have t: "trim s = rev ?b" by (simp add: trim_def)
  with False have b: "?b \<noteq> []" by simp
  then have "\<not> isWhiteSpace (hd ?b)" by (rule hd_dropWhile)
  then have l: "\<not> isWhiteSpace (last (trim s))" using b by (simp add: t last_rev)
  have a: "?a \<noteq> []"
  proof
    assume "?a = []"
    then have "rev ?a = []" by (simp only: rev.simps)
    then have "?b = []" by (simp only: dropWhile.simps)
    with b show False by simp
  qed
  then have ha: "\<not> isWhiteSpace (hd ?a)" by (rule hd_dropWhile)
  have "?a = trim s @ rev (takeWhile isWhiteSpace (rev ?a))" by (rule trim_prefix)
  with False have "hd ?a = hd (trim s)" by (metis hd_append2)
  with ha l show ?thesis by simp
qed

lemma trim_fixed:
  assumes "s = [] \<or> (\<not> isWhiteSpace (hd s) \<and> \<not> isWhiteSpace (last s))"
  shows "trim s = s"
proof (cases s)
  case Nil
  then show ?thesis by (simp add: trim_def)
next
  case (Cons c cs)
  with assms have h: "\<not> isWhiteSpace c" and l: "\<not> isWhiteSpace (last s)" by auto
  from h Cons have 1: "dropWhile isWhiteSpace s = s" by simp
  from Cons have "rev s \<noteq> []" by simp
  moreover from l have "\<not> isWhiteSpace (hd (rev s))" by (simp add: hd_rev)
  ultimately have 2: "dropWhile isWhiteSpace (rev s) = rev s" by (cases "rev s") auto
  show ?thesis by (simp add: trim_def 1 2)
qed

lemma trim_idem: "trim (trim s) = trim s"
  using trim_no_edges [of s] by (rule trim_fixed)

lemma normalizeText_settled: "settled s \<Longrightarrow> normalizeText s = trim s"
proof -
  assume s: "settled s"
  then have low: "toLowerCase s = s"
    by (simp add: settled_def toLowerCase_def map_idI)
  from s have "\<forall>c \<in> set (trim s). isWordChar c \<or> isWhiteSpace c"
    using set_trim [of s] by (auto simp: settled_def)
  then have keep: "removePunctuation (trim s) = trim s"
    by (simp add: removePunctuation_def)
  from s have "singleSpaced False (trim s)"
    by (auto simp: settled_def intro: singleSpaced_trim)
  then have "collapseWhitespace (trim s) = trim s"
    by (simp add: collapseWhitespace_def collapseFrom_fixed)
  with low keep show ?thesis by (simp add: normalizeText_def)
qed

lemma settled_normalizeText: "settled (normalizeText s)"
proof -
  let ?w = "removePunctuation (trim (toLowerCase s))"
  have w: "\<forall>c \<in> set ?w. toLowerChar c = c \<and> (isWordChar c \<or> isWhiteSpace c)"
  proof
    fix c assume c: "c \<in> set ?w"
    then have k: "isWordChar c \<or> isWhiteSpace c" by (simp add: removePunctuation_def)
    from c have "c \<in> set (trim (toLowerCase s))" by (simp add: removePunctuation_def)
    then have "c \<in> set (toLowerCase s)" using set_trim by blast
    then obtain c0 where "c = toLowerChar c0" by (auto simp: toLowerCase_def)
    then have "toLowerChar c = c" by (simp add: toLowerChar_idem)
    with k show "toLowerChar c = c \<and> (isWordChar c \<or> isWhiteSpace c)" by simp
  qed
  have "\<forall>c \<in> set (collapseFrom False ?w). toLowerChar c = c \<and> (isWordChar c \<or> isWhiteSpace c)"
    using set_collapseFrom [of False ?w] w space_facts by auto
  then show ?thesis
    by (simp add: settled_def normalizeText_def collapseWhitespace_def singleSpaced_collapseFrom)
qed

lemma settled_trim: "settled s \<Longrightarrow> settled (trim s)"
  using set_trim [of s] by (auto simp: settled_def intro: singleSpaced_trim)

lemma normalizeText_twice: "normalizeText (normalizeText s) = trim (normalizeText s)"
  by (simp add: normalizeText_settled settled_normalizeText)

lemma normalizeText_thrice:
  "normalizeText (normalizeText (normalizeText s)) = normalizeText (normalizeText s)"
  by (simp add: normalizeText_twice normalizeText_settled settled_trim settled_normalizeText
        trim_idem)

section \<open>Exact matches\<close>

text \<open>
  Claim C4, as amended.  For every non-empty text whose normalized form is a key of the
  loaded dictionary, \<open>mapTextToSigns\<close> succeeds with confidence exactly 1, the file names
  of its signs are the entry's video list, unchanged and in the same order, and the one
  caption is the normalized text.
\<close>

theorem mapTextToSigns_exact:
  assumes "mappingData svc = Some d" and "text \<noteq> []"
    and "map_of d (normalizeText text) = Some vs"
  shows "\<exists>r. mapTextToSigns svc text = Inr r \<and> resultConfidence r = 1 \<and>
             map filename (signs r) = vs \<and> resultCaptions r = [normalizeText text]"
  using assms by (simp add: mapTextToSigns_def findMatches_def getProperty_def comp_def)

text \<open>
  The theorem at the input \<^verbatim>\<open>Thank you!\<close>, with the fallback dictionary.
\<close>

theorem mapTextToSigns_exact_witness:
  "\<exists>r. mapTextToSigns fallbackService ''Thank you!'' = Inr r \<and> resultConfidence r = 1 \<and>
       map filename (signs r) = [''THANK-YOU.mp4''] \<and> resultCaptions r = [''thank you'']"
proof -
  have n: "normalizeText ''Thank you!'' = ''thank you''" by code_simp
  have 1: "mappingData fallbackService = Some createFallbackMapping"
    by (simp add: fallbackService_def)
  have 2: "''Thank you!'' \<noteq> []" by simp
  have 3: "map_of createFallbackMapping (normalizeText ''Thank you!'') = Some [''THANK-YOU.mp4'']"
    unfolding n by (simp add: createFallbackMapping_def)
  show ?thesis using mapTextToSigns_exact [OF 1 2 3] unfolding n by simp
qed

text \<open>
  Against claim C4 as stated: the empty text has the normalized form of the key of
  \<open>blankKeyService\<close>, and it is rejected by the guard of \<open>mapTextToSigns\<close>.
\<close>

theorem mapTextToSigns_blank_key_rejected:
  "map_of [([], [''BLANK.mp4''])] (normalizeText []) = Some [''BLANK.mp4''] \<and>
   mappingData blankKeyService = Some [([], [''BLANK.mp4''])] \<and>
   mapTextToSigns blankKeyService [] = Inl InvalidTextInput"
proof -
  have "normalizeText [] = []" by code_simp
  then show ?thesis
    by (simp add: blankKeyService_def mapTextToSigns_def)
qed

section \<open>Stopping a session\<close>

text \<open>
  What \<open>emit\<close> leaves alone.
\<close>

lemma emitted_emit: "emitted (emit socket ev st) = emitted st @ [(socket, ev)]"
  by (simp add: emit_def)

lemma activeConnections_emit: "activeConnections (emit socket ev st) = activeConnections st"
  by (simp add: emit_def)

lemma streams_emit: "streams (emit socket ev st) = streams st"
  by (simp add: emit_def)

lemma stop_absent:
  "map_of (activeConnections st) socket = None \<Longrightarrow>
     stopStreamingRecognition socket st = emit socket StreamingStopped st"
  by (simp add: stopStreamingRecognition_def)

lemma absent_after_stop:
  "map_of (activeConnections (stopStreamingRecognition socket st)) socket = None"
  by (simp add: stopStreamingRecognition_def emit_def endStream_def Let_def AList.delete_conv'
           split: option.splits)

text \<open>
  Claim C9.  Every call of \<open>stopStreamingRecognition\<close> sends exactly one
  \<^verbatim>\<open>streaming-stopped\<close> to its socket, whatever the state.  Where the socket has no
  entry in the registry the call does nothing else.  After the call the socket has no
  entry, so a second call only sends the event again: it ends no stream and removes
  nothing.
\<close>

theorem stopStreamingRecognition_always_one_event:
  "emitted (stopStreamingRecognition socket st) = emitted st @ [(socket, StreamingStopped)] \<and>
   (map_of (activeConnections st) socket = None \<longrightarrow>
      stopStreamingRecognition socket st = emit socket StreamingStopped st) \<and>
   map_of (activeConnections (stopStreamingRecognition socket st)) socket = None \<and>
   stopStreamingRecognition socket (stopStreamingRecognition socket st) =
     emit socket StreamingStopped (stopStreamingRecognition socket st)"
proof (intro conjI impI)
  show "emitted (stopStreamingRecognition socket st) = emitted st @ [(socket, StreamingStopped)]"
    by (simp add: stopStreamingRecognition_def emit_def endStream_def Let_def
             split: option.splits)
  show "stopStreamingRecognition socket st = emit socket StreamingStopped st"
    if "map_of (activeConnections st) socket = None"
    using that by (rule stop_absent)
  show "map_of (activeConnections (stopStreamingRecognition socket st)) socket = None"
    by (rule absent_after_stop)
  show "stopStreamingRecognition socket (stopStreamingRecognition socket st) =
          emit socket StreamingStopped (stopStreamingRecognition socket st)"
    using absent_after_stop by (rule stop_absent)
qed

text \<open>
  The theorem at a socket that never started streaming.
\<close>

theorem stopStreamingRecognition_witness:
  "map_of (activeConnections initialController) ''s1'' = None \<and>
   stopStreamingRecognition ''s1'' initialController =
     emit ''s1'' StreamingStopped initialController \<and>
   emitted (stopStreamingRecognition ''s1'' initialController) = [(''s1'', StreamingStopped)]"
  using stopStreamingRecognition_always_one_event [of "''s1''" initialController]
  by (simp add: initialController_def emit_def)

section \<open>Relaying provider results\<close>

text \<open>
  A call that resumes sends \<^verbatim>\<open>signs-update\<close> or \<^verbatim>\<open>mapping-error\<close>, and touches
  nothing but the event log.
\<close>

lemma pending_emit: "pending (emit socket ev st) = pending st"
  by (simp add: emit_def)

lemma resume_cases:
  "resume k st =
     emit (ofSocket k)
       (case outcome k of
          Inr r \<Rightarrow> SignsUpdate (ofTranscript k) (signs r) (resultCaptions r) (resultConfidence r)
        | Inl e \<Rightarrow> MappingError ''Failed to map text to signs'' e) st"
  by (simp add: resume_def split: sum.splits)

lemma resumeAll_emits:
  "\<exists>rest. emitted (resumeAll ks st) = emitted st @ rest \<and>
          (\<forall>e \<in> set rest. \<not> isTranscriptUpdate (snd e))"
proof (induction ks arbitrary: st)
  case Nil
  then show ?case by simp
next
  case (Cons k ks)
  obtain rest where r: "emitted (resumeAll ks (resume k st)) = emitted (resume k st) @ rest"
    "\<forall>e \<in> set rest. \<not> isTranscriptUpdate (snd e)"
    using Cons.IH by blast
  obtain ev where ev: "emitted (resume k st) = emitted st @ [(ofSocket k, ev)]"
    "\<not> isTranscriptUpdate ev"
    by (cases "outcome k") (simp_all add: resume_def emit_def)
  have "emitted (resumeAll (k # ks) st) = emitted st @ ((ofSocket k, ev) # rest)"
    using r(1) ev(1) by simp
  moreover have "\<forall>e \<in> set ((ofSocket k, ev) # rest). \<not> isTranscriptUpdate (snd e)"
    using r(2) ev(2) by simp
  ultimately show ?case by blast
qed

lemma resumeAll_keeps:
  "activeConnections (resumeAll ks st) = activeConnections st"
  "streams (resumeAll ks st) = streams st"
  "pending (resumeAll ks st) = pending st"
  by (induction ks arbitrary: st) (simp_all add: resume_cases emit_def)

lemma handle_sync_events:
  assumes "results data = Some (r # rs)" and "alternatives r = a # as"
  shows "emitted (handleStreamingResult svc socket data st) =
           emitted st @
             [(socket, TranscriptUpdate (transcript a)
                         (orDefault 0 (altConfidence a) (8 / 10)) (isFinal r))]"
  using assms by (simp add: handleStreamingResult_def emit_def Let_def)

text \<open>
  Claim C10, as amended.  A provider response whose list of results is missing or empty
  changes nothing: no event is sent.  Where the first result has an alternative, the
  listener sends exactly one event, a \<^verbatim>\<open>transcript-update\<close> with the transcript of the
  first alternative of the first result, its confidence (0.8 where the provider gave
  none, or gave 0) and the finality of the first result; what follows when the turn
  ends is no \<^verbatim>\<open>transcript-update\<close>.  Where the first result has no alternative, the
  listener sends the \<^verbatim>\<open>error\<close> event of a failed result and nothing else.
\<close>

theorem handleStreamingResult_relays_first:
  "(results data = None \<or> results data = Some [] \<longrightarrow>
      handleStreamingResult svc socket data st = st) \<and>
   (results data = Some (r # rs) \<and> alternatives r = a # as \<longrightarrow>
      emitted (handleStreamingResult svc socket data st) =
        emitted st @
          [(socket,
            TranscriptUpdate (transcript a)
              (case altConfidence a of None \<Rightarrow> 8 / 10
               | Some c \<Rightarrow> if c = 0 then 8 / 10 else c)
              (isFinal r))] \<and>
      (\<exists>rest.
         emitted (endOfTurn (handleStreamingResult svc socket data st)) =
           emitted (handleStreamingResult svc socket data st) @ rest \<and>
         (\<forall>e \<in> set rest. \<not> isTranscriptUpdate (snd e)))) \<and>
   (results data = Some (r # rs) \<and> alternatives r = [] \<longrightarrow>
      handleStreamingResult svc socket data st =
        emit socket (SocketError ''Failed to process recognition result'' (Some TypeError)) st)"
proof (intro conjI impI)
  assume "results data = None \<or> results data = Some []"
  then show "handleStreamingResult svc socket data st = st"
    by (auto simp: handleStreamingResult_def)
next
  assume "results data = Some (r # rs) \<and> alternatives r = a # as"
  then show "emitted (handleStreamingResult svc socket data st) =
        emitted st @
          [(socket,
            TranscriptUpdate (transcript a)
              (case altConfidence a of None \<Rightarrow> 8 / 10
               | Some c \<Rightarrow> if c = 0 then 8 / 10 else c)
              (isFinal r))]"
    by (cases "altConfidence a") (simp_all add: handle_sync_events orDefault_def)
next
  let ?h = "handleStreamingResult svc socket data st"
  have "\<exists>rest. emitted (resumeAll (pending ?h) (?h\<lparr>pending := []\<rparr>)) =
                  emitted (?h\<lparr>pending := []\<rparr>) @ rest \<and>
               (\<forall>e \<in> set rest. \<not> isTranscriptUpdate (snd e))"
    by (rule resumeAll_emits)
  then show "\<exists>rest. emitted (endOfTurn ?h) = emitted ?h @ rest \<and>
                    (\<forall>e \<in> set rest. \<not> isTranscriptUpdate (snd e))"
    by (simp add: endOfTurn_def)
next
  assume "results data = Some (r # rs) \<and> alternatives r = []"
  then show "handleStreamingResult svc socket data st =
        emit socket (SocketError ''Failed to process recognition result'' (Some TypeError)) st"
    by (simp add: handleStreamingResult_def)
qed

text \<open>
  The theorem at a missing list, at an interim result and at a result with no
  alternative.
\<close>

theorem handleStreamingResult_witness:
  "handleStreamingResult fallbackService ''s1'' \<lparr>results = None\<rparr> initialController =
     initialController \<and>
   emitted (handleStreamingResult fallbackService ''s1'' (transcriptData ''hel'' False)
              initialController) =
     [(''s1'', TranscriptUpdate ''hel'' (8 / 10) False)] \<and>
   emitted (handleStreamingResult fallbackService ''s1''
              \<lparr>results = Some [\<lparr>alternatives = [], isFinal = False\<rparr>]\<rparr> initialController) =
     [(''s1'', SocketError ''Failed to process recognition result'' (Some TypeError))]"
proof -
  have e: "emitted initialController = []" by (simp add: initialController_def)
  note t = handleStreamingResult_relays_first
  from t [where data = "\<lparr>results = None\<rparr>" and svc = fallbackService
            and socket = "''s1''" and st = initialController]
  have 1: "handleStreamingResult fallbackService ''s1'' \<lparr>results = None\<rparr> initialController =
             initialController"
    by simp
  from t [where data = "transcriptData ''hel'' False"
            and r = "\<lparr>alternatives = [\<lparr>transcript = ''hel'', altConfidence = None\<rparr>],
                      isFinal = False\<rparr>"
            and rs = "[]" and a = "\<lparr>transcript = ''hel'', altConfidence = None\<rparr>"
            and as = "[]" and svc = fallbackService and socket = "''s1''"
            and st = initialController]
  have 2: "emitted (handleStreamingResult fallbackService ''s1'' (transcriptData ''hel'' False)
                      initialController) =
             [(''s1'', TranscriptUpdate ''hel'' (8 / 10) False)]"
    by (simp add: transcriptData_def e)
  from t [where data = "\<lparr>results = Some [\<lparr>alternatives = [], isFinal = False\<rparr>]\<rparr>"
            and r = "\<lparr>alternatives = [], isFinal = False\<rparr>" and rs = "[]"
            and svc = fallbackService and socket = "''s1''" and st = initialController]
  have 3: "emitted (handleStreamingResult fallbackService ''s1''
                      \<lparr>results = Some [\<lparr>alternatives = [], isFinal = False\<rparr>]\<rparr>
                      initialController) =
             [(''s1'', SocketError ''Failed to process recognition result'' (Some TypeError))]"
    by (simp add: emit_def e)
  from 1 2 3 show ?thesis by blast
qed

text \<open>
  Against claim C10 as stated: the list of results is not empty, and no
  \<^verbatim>\<open>transcript-update\<close> is sent, in the listener or when the turn ends: the first
  result has no alternative to relay, and the client gets an \<^verbatim>\<open>error\<close> event.
\<close>

theorem handleStreamingResult_no_alternative:
  "emitted (endOfTurn (handleStreamingResult fallbackService ''s1''
                         \<lparr>results = Some [\<lparr>alternatives = [], isFinal = False\<rparr>]\<rparr>
                         initialController)) =
     [(''s1'', SocketError ''Failed to process recognition result'' (Some TypeError))]"
  by (simp add: handleStreamingResult_def endOfTurn_def emit_def initialController_def)

section \<open>Audio for a destroyed stream\<close>

text \<open>
  Claim C7, as amended.  When an audio chunk arrives for a registered session whose
  stream is destroyed, the handler sends \<^verbatim>\<open>streaming-error\<close> and nothing else, writes
  nothing to any stream and ends none, and the session stays in the registry with its
  \<open>lastActivity\<close> set to the time of the chunk.  \<^verbatim>\<open>write\<close> is not called, so what it
  would do does not matter.
\<close>

theorem processStreamingAudio_stream_destroyed:
  assumes "map_of (activeConnections st) socket = Some connection"
    and "destroyed (streams st (streamRef connection))"
  shows "emitted (processStreamingAudio w now socket audio st) =
           emitted st @ [(socket, StreamingError ''Streaming session ended'' None)] \<and>
         streams (processStreamingAudio w now socket audio st) = streams st \<and>
         map_of (activeConnections (processStreamingAudio w now socket audio st)) socket =
           Some (connection\<lparr>lastActivity := now\<rparr>)"
  using assms
  by (simp add: processStreamingAudio_def emit_def Let_def AList.update_conv')

text \<open>
  The state \<open>oneSession\<close>, written out.
\<close>

lemma oneSession_eq:
  "oneSession =
     \<lparr>activeConnections =
        [(''s1'', \<lparr>streamRef = 0, config = makeConfig noOptions,
                  startTime = 1000, lastActivity = 1000\<rparr>)],
      streams = (\<lambda>r. newStream)(0 := newStream),
      allocated = 1,
      emitted = [],
      pending = []\<rparr>"
  by (simp add: oneSession_def startStreamingRecognition_def initialController_def emit_def Let_def)

text \<open>
  The theorem at the session of \<open>oneSession\<close>, after its stream was destroyed.
\<close>

theorem processStreamingAudio_witness:
  "emitted (processStreamingAudio Accepted 2000 ''s1'' (Buf [1, 2, 3]) (destroyStream 0 oneSession)) =
     [(''s1'', StreamingError ''Streaming session ended'' None)] \<and>
   streams (processStreamingAudio Accepted 2000 ''s1'' (Buf [1, 2, 3]) (destroyStream 0 oneSession)) =
     streams (destroyStream 0 oneSession) \<and>
   map_of (activeConnections
             (processStreamingAudio Accepted 2000 ''s1'' (Buf [1, 2, 3]) (destroyStream 0 oneSession)))
       ''s1'' =
     Some \<lparr>streamRef = 0, config = makeConfig noOptions, startTime = 1000, lastActivity = 2000\<rparr>"
proof -
  let ?c = "\<lparr>streamRef = 0, config = makeConfig noOptions,
             startTime = 1000, lastActivity = 1000\<rparr>"
  have 1: "map_of (activeConnections (destroyStream 0 oneSession)) ''s1'' = Some ?c"
    by (simp add: oneSession_eq destroyStream_def)
  have 2: "destroyed (streams (destroyStream 0 oneSession) (streamRef ?c))"
    by (simp add: oneSession_eq destroyStream_def)
  have 3: "emitted (destroyStream 0 oneSession) = []"
    by (simp add: oneSession_eq destroyStream_def)
  show ?thesis
    using processStreamingAudio_stream_destroyed [OF 1 2, of Accepted 2000 "Buf [1, 2, 3]"]
    by (simp add: 3)
qed

text \<open>
  Against claim C7 as stated: after the chunk the session is still registered, and
  its stream has not been ended; nothing was torn down.
\<close>

theorem processStreamingAudio_keeps_session:
  "destroyed (streams (destroyStream 0 oneSession) 0) \<and>
   map_of (activeConnections
             (processStreamingAudio Accepted 2000 ''s1'' (Buf [1, 2, 3]) (destroyStream 0 oneSession)))
       ''s1'' =
     Some \<lparr>streamRef = 0, config = makeConfig noOptions, startTime = 1000, lastActivity = 2000\<rparr> \<and>
   endCalls (streams (processStreamingAudio Accepted 2000 ''s1'' (Buf [1, 2, 3])
                        (destroyStream 0 oneSession)) 0) = 0"
  by (simp add: oneSession_eq destroyStream_def processStreamingAudio_def emit_def newStream_def)


section \<open>The order of events of one session\<close>

text \<open>
  What the listener of \<^verbatim>\<open>data\<close> does with a well-formed result: an interim result is
  relayed; a final result with a transcript that is not blank is relayed, and the call
  is suspended on the mapping.
\<close>

lemma handle_interim:
  assumes "results d = Some (r # rs)" and "alternatives r = a # as" and "\<not> isFinal r"
  shows "handleStreamingResult svc socket d st =
           emit socket
             (TranscriptUpdate (transcript a) (orDefault 0 (altConfidence a) (8 / 10)) False) st"
  using assms by (simp add: handleStreamingResult_def)

lemma handle_final:
  assumes "results d = Some (r # rs)" and "alternatives r = a # as" and "isFinal r"
    and "trim (transcript a) \<noteq> []"
  shows "emitted (handleStreamingResult svc socket d st) =
           emitted st @
             [(socket, TranscriptUpdate (transcript a)
                         (orDefault 0 (altConfidence a) (8 / 10)) True)]"
    and "pending (handleStreamingResult svc socket d st) =
           pending st @
             [\<lparr>ofSocket = socket, ofTranscript = transcript a,
               outcome = mapTextToSigns svc (transcript a)\<rparr>]"
    and "activeConnections (handleStreamingResult svc socket d st) = activeConnections st"
    and "streams (handleStreamingResult svc socket d st) = streams st"
  using assms by (simp_all add: handleStreamingResult_def emit_def Let_def)

lemma emitted_stop:
  "emitted (stopStreamingRecognition socket st) = emitted st @ [(socket, StreamingStopped)]"
  by (simp add: stopStreamingRecognition_def emit_def endStream_def Let_def split: option.splits)

lemma pending_stop: "pending (stopStreamingRecognition socket st) = pending st"
  by (simp add: stopStreamingRecognition_def emit_def endStream_def Let_def split: option.splits)

lemma onStreamEnd_events:
  "emitted (onStreamEnd socket st) =
     emitted st @ [(socket, StreamingEnded), (socket, StreamingStopped)]"
  "pending (onStreamEnd socket st) = pending st"
  by (simp_all add: onStreamEnd_def emitted_stop pending_stop emit_def)

text \<open>
  The end of a turn: with no call suspended nothing happens; with one call suspended,
  its event is sent; afterwards no call is suspended.
\<close>

lemma endOfTurn_idle: "pending st = [] \<Longrightarrow> endOfTurn st = st"
  by (cases st) (simp add: endOfTurn_def)

lemma pending_endOfTurn: "pending (endOfTurn st) = []"
  by (simp add: endOfTurn_def resumeAll_keeps)

lemma endOfTurn_keeps:
  "activeConnections (endOfTurn st) = activeConnections st"
  "streams (endOfTurn st) = streams st"
  by (simp_all add: endOfTurn_def resumeAll_keeps)

lemma endOfTurn_one:
  assumes "pending st = [k]"
  shows "emitted (endOfTurn st) =
           emitted st @
             [(ofSocket k,
               case outcome k of
                 Inr r \<Rightarrow> SignsUpdate (ofTranscript k) (signs r) (resultCaptions r)
                           (resultConfidence r)
               | Inl e \<Rightarrow> MappingError ''Failed to map text to signs'' e)]"
  using assms by (simp add: endOfTurn_def resume_cases emit_def)

lemma deliver_append:
  "deliver svc socket (xs @ ys) st = deliver svc socket ys (deliver svc socket xs st)"
  by (induction svc socket xs st rule: deliver.induct) simp_all

lemma deliver_idle_turns:
  "pending st = [] \<Longrightarrow> deliver svc socket (replicate n TurnEnds) st = st"
  by (induction n) (simp_all add: endOfTurn_idle)

lemma deliver_turns: "deliver svc socket (replicate (Suc n) TurnEnds) st = endOfTurn st"
  by (simp add: deliver_idle_turns pending_endOfTurn)

text \<open>
  A run of two interim results, a final result that is mapped and the end of the
  stream, with turns that end anywhere in between and at least once at the end.
\<close>

lemma sequence_order:
  assumes d1: "results d1 = Some (r1 # rs1)" "alternatives r1 = a1 # as1" "\<not> isFinal r1"
    and d2: "results d2 = Some (r2 # rs2)" "alternatives r2 = a2 # as2" "\<not> isFinal r2"
    and d3: "results d3 = Some (r3 # rs3)" "alternatives r3 = a3 # as3" "isFinal r3"
      "trim (transcript a3) \<noteq> []"
    and m: "mapTextToSigns svc (transcript a3) = Inr m"
    and idle: "pending st = []"
  shows "emitted
           (deliver svc socket
              (replicate n1 TurnEnds @ [Arrives (Data d1)] @
               replicate n2 TurnEnds @ [Arrives (Data d2)] @
               replicate n3 TurnEnds @ [Arrives (Data d3)] @
               replicate n4 TurnEnds @ [Arrives Ended] @
               replicate (Suc n5) TurnEnds) st) =
         emitted st @
           [(socket, TranscriptUpdate (transcript a1)
                       (orDefault 0 (altConfidence a1) (8 / 10)) False),
            (socket, TranscriptUpdate (transcript a2)
                       (orDefault 0 (altConfidence a2) (8 / 10)) False),
            (socket, TranscriptUpdate (transcript a3)
                       (orDefault 0 (altConfidence a3) (8 / 10)) True)] @
           (if n4 = 0
            then [(socket, StreamingEnded), (socket, StreamingStopped),
                  (socket, SignsUpdate (transcript a3) (signs m) (resultCaptions m)
                             (resultConfidence m))]
            else [(socket, SignsUpdate (transcript a3) (signs m) (resultCaptions m)
                             (resultConfidence m)),
                  (socket, StreamingEnded), (socket, StreamingStopped)])"
proof -
  let ?k = "\<lparr>ofSocket = socket, ofTranscript = transcript a3,
             outcome = mapTextToSigns svc (transcript a3)\<rparr>"
  define t1 where "t1 = onProviderEvent svc socket (Data d1) st"
  define t2 where "t2 = onProviderEvent svc socket (Data d2) t1"
  define t3 where "t3 = onProviderEvent svc socket (Data d3) t2"
  define t3' where "t3' = deliver svc socket (replicate n4 TurnEnds) t3"
  define t4 where "t4 = onProviderEvent svc socket Ended t3'"
  have e1: "emitted t1 = emitted st @
              [(socket, TranscriptUpdate (transcript a1)
                          (orDefault 0 (altConfidence a1) (8 / 10)) False)]"
    and p1: "pending t1 = []"
    using idle by (simp_all add: t1_def onProviderEvent_def handle_interim [OF d1] emit_def)
  have e2: "emitted t2 = emitted t1 @
              [(socket, TranscriptUpdate (transcript a2)
                          (orDefault 0 (altConfidence a2) (8 / 10)) False)]"
    and p2: "pending t2 = []"
    using p1 by (simp_all add: t2_def onProviderEvent_def handle_interim [OF d2] emit_def)
  have e3: "emitted t3 = emitted t2 @
              [(socket, TranscriptUpdate (transcript a3)
                          (orDefault 0 (altConfidence a3) (8 / 10)) True)]"
    and p3: "pending t3 = [?k]"
    using p2 by (simp_all add: t3_def onProviderEvent_def handle_final [OF d3])
  have run: "deliver svc socket
               (replicate n1 TurnEnds @ [Arrives (Data d1)] @
                replicate n2 TurnEnds @ [Arrives (Data d2)] @
                replicate n3 TurnEnds @ [Arrives (Data d3)] @
                replicate n4 TurnEnds @ [Arrives Ended] @
                replicate (Suc n5) TurnEnds) st = endOfTurn t4"
    unfolding deliver_append deliver_turns
    by (simp add: deliver_idle_turns idle p1 p2 t1_def [symmetric] t2_def [symmetric]
          t3_def [symmetric] t3'_def [symmetric] t4_def [symmetric])
  have e4: "emitted t4 = emitted t3' @ [(socket, StreamingEnded), (socket, StreamingStopped)]"
    and p4: "pending t4 = pending t3'"
    by (simp_all add: t4_def onProviderEvent_def onStreamEnd_events)
  show ?thesis
  proof (cases n4)
    case 0
    then have "t3' = t3" by (simp add: t3'_def)
    with p4 p3 have "pending t4 = [?k]" by simp
    then have "emitted (endOfTurn t4) =
                 emitted t4 @
                   [(socket, SignsUpdate (transcript a3) (signs m) (resultCaptions m)
                               (resultConfidence m))]"
      by (simp add: endOfTurn_one m)
    with 0 \<open>t3' = t3\<close> show ?thesis
      unfolding run by (simp add: e4 e3 e2 e1)
  next
    case (Suc n)
    have t: "t3' = endOfTurn t3" unfolding t3'_def Suc by (rule deliver_turns)
    have "emitted t3' =
            emitted t3 @
              [(socket, SignsUpdate (transcript a3) (signs m) (resultCaptions m)
                          (resultConfidence m))]"
      unfolding t using p3 by (simp add: endOfTurn_one m)
    moreover have "pending t4 = []" by (simp add: p4 t pending_endOfTurn)
    ultimately show ?thesis
      unfolding run using Suc by (simp add: endOfTurn_idle e4 e3 e2 e1)
  qed
qed

text \<open>
  A final result whose mapping fails, and the end of its turn.
\<close>

lemma mapping_failure_goes_on:
  assumes d: "results d = Some (r # rs)" "alternatives r = a # as" "isFinal r"
      "trim (transcript a) \<noteq> []"
    and m: "mapTextToSigns svc (transcript a) = Inl e"
    and idle: "pending st = []"
  shows "emitted (deliver svc socket [Arrives (Data d), TurnEnds] st) =
           emitted st @
             [(socket, TranscriptUpdate (transcript a)
                         (orDefault 0 (altConfidence a) (8 / 10)) True),
              (socket, MappingError ''Failed to map text to signs'' e)]"
    and "activeConnections (deliver svc socket [Arrives (Data d), TurnEnds] st) =
           activeConnections st"
    and "streams (deliver svc socket [Arrives (Data d), TurnEnds] st) = streams st"
proof -
  let ?h = "handleStreamingResult svc socket d st"
  let ?k = "\<lparr>ofSocket = socket, ofTranscript = transcript a,
             outcome = mapTextToSigns svc (transcript a)\<rparr>"
  have p: "pending ?h = [?k]" using idle by (simp add: handle_final(2) [OF d])
  show "emitted (deliver svc socket [Arrives (Data d), TurnEnds] st) =
           emitted st @
             [(socket, TranscriptUpdate (transcript a)
                         (orDefault 0 (altConfidence a) (8 / 10)) True),
              (socket, MappingError ''Failed to map text to signs'' e)]"
    by (simp add: onProviderEvent_def endOfTurn_one [OF p] m handle_final(1) [OF d])
  show "activeConnections (deliver svc socket [Arrives (Data d), TurnEnds] st) =
           activeConnections st"
    by (simp add: onProviderEvent_def endOfTurn_keeps handle_final(3) [OF d])
  show "streams (deliver svc socket [Arrives (Data d), TurnEnds] st) = streams st"
    by (simp add: onProviderEvent_def endOfTurn_keeps handle_final(4) [OF d])
qed

text \<open>
  A final result that is mapped, and the end of its turn.
\<close>

lemma mapping_success_in_order:
  assumes d: "results d = Some (r # rs)" "alternatives r = a # as" "isFinal r"
      "trim (transcript a) \<noteq> []"
    and m: "mapTextToSigns svc (transcript a) = Inr m"
    and idle: "pending st = []"
  shows "emitted (deliver svc socket [Arrives (Data d), TurnEnds] st) =
           emitted st @
             [(socket, TranscriptUpdate (transcript a)
                         (orDefault 0 (altConfidence a) (8 / 10)) True),
              (socket, SignsUpdate (transcript a) (signs m) (resultCaptions m)
                         (resultConfidence m))]"
proof -
  let ?h = "handleStreamingResult svc socket d st"
  let ?k = "\<lparr>ofSocket = socket, ofTranscript = transcript a,
             outcome = mapTextToSigns svc (transcript a)\<rparr>"
  have p: "pending ?h = [?k]" using idle by (simp add: handle_final(2) [OF d])
  show ?thesis
    by (simp add: onProviderEvent_def endOfTurn_one [OF p] m handle_final(1) [OF d])
qed

text \<open>
  Claim C6, as amended.  The provider sends two interim results, a final result whose
  transcript is not blank and is mapped, and then ends the stream, to a session with
  no call suspended.  Whatever turns these events share, the events sent to the socket
  begin with the three \<^verbatim>\<open>transcript-update\<close>s in order.  Where a turn ends between
  the final result and the end of the stream, \<^verbatim>\<open>signs-update\<close>, \<^verbatim>\<open>streaming-ended\<close>
  and \<^verbatim>\<open>streaming-stopped\<close> follow in this order.  Where the final result and the end
  of the stream share a turn, \<^verbatim>\<open>streaming-ended\<close> and \<^verbatim>\<open>streaming-stopped\<close> come
  first and \<^verbatim>\<open>signs-update\<close> last.  In both, \<^verbatim>\<open>signs-update\<close> comes after the
  \<^verbatim>\<open>transcript-update\<close> of its transcript, and \<^verbatim>\<open>streaming-stopped\<close> right after
  \<^verbatim>\<open>streaming-ended\<close>.  A final result that is mapped sends its
  \<^verbatim>\<open>transcript-update\<close> at once and its \<^verbatim>\<open>signs-update\<close> when its turn ends.  When
  the mapping of a final transcript fails,
  \<^verbatim>\<open>transcript-update\<close> is followed by \<^verbatim>\<open>mapping-error\<close>, and the registry and the
  streams are as before: the session goes on.
\<close>

theorem provider_sequence_events:
  "(results d1 = Some (r1 # rs1) \<and> alternatives r1 = a1 # as1 \<and> \<not> isFinal r1 \<and>
    results d2 = Some (r2 # rs2) \<and> alternatives r2 = a2 # as2 \<and> \<not> isFinal r2 \<and>
    results d3 = Some (r3 # rs3) \<and> alternatives r3 = a3 # as3 \<and> isFinal r3 \<and>
    trim (transcript a3) \<noteq> [] \<and> mapTextToSigns svc (transcript a3) = Inr m \<and>
    pending st = [] \<longrightarrow>
      emitted
        (deliver svc socket
           (replicate n1 TurnEnds @ [Arrives (Data d1)] @
            replicate n2 TurnEnds @ [Arrives (Data d2)] @
            replicate n3 TurnEnds @ [Arrives (Data d3)] @
            replicate n4 TurnEnds @ [Arrives Ended] @
            replicate (Suc n5) TurnEnds) st) =
      emitted st @
        [(socket, TranscriptUpdate (transcript a1)
                    (orDefault 0 (altConfidence a1) (8 / 10)) False),
         (socket, TranscriptUpdate (transcript a2)
                    (orDefault 0 (altConfidence a2) (8 / 10)) False),
         (socket, TranscriptUpdate (transcript a3)
                    (orDefault 0 (altConfidence a3) (8 / 10)) True)] @
        (if n4 = 0
         then [(socket, StreamingEnded), (socket, StreamingStopped),
               (socket, SignsUpdate (transcript a3) (signs m) (resultCaptions m)
                          (resultConfidence m))]
         else [(socket, SignsUpdate (transcript a3) (signs m) (resultCaptions m)
                          (resultConfidence m)),
               (socket, StreamingEnded), (socket, StreamingStopped)]) \<and>
      emitted (deliver svc socket [Arrives (Data d3), TurnEnds] st) =
        emitted st @
          [(socket, TranscriptUpdate (transcript a3)
                      (orDefault 0 (altConfidence a3) (8 / 10)) True),
           (socket, SignsUpdate (transcript a3) (signs m) (resultCaptions m)
                      (resultConfidence m))]) \<and>
   (results d = Some (r # rs) \<and> alternatives r = a # as \<and> isFinal r \<and>
    trim (transcript a) \<noteq> [] \<and> mapTextToSigns svc (transcript a) = Inl e \<and>
    pending st' = [] \<longrightarrow>
      emitted (deliver svc socket' [Arrives (Data d), TurnEnds] st') =
        emitted st' @
          [(socket', TranscriptUpdate (transcript a)
                       (orDefault 0 (altConfidence a) (8 / 10)) True),
           (socket', MappingError ''Failed to map text to signs'' e)] \<and>
      activeConnections (deliver svc socket' [Arrives (Data d), TurnEnds] st') =
        activeConnections st' \<and>
      streams (deliver svc socket' [Arrives (Data d), TurnEnds] st') = streams st')"
proof (intro conjI impI)
  assume h: "results d1 = Some (r1 # rs1) \<and> alternatives r1 = a1 # as1 \<and> \<not> isFinal r1 \<and>
    results d2 = Some (r2 # rs2) \<and> alternatives r2 = a2 # as2 \<and> \<not> isFinal r2 \<and>
    results d3 = Some (r3 # rs3) \<and> alternatives r3 = a3 # as3 \<and> isFinal r3 \<and>
    trim (transcript a3) \<noteq> [] \<and> mapTextToSigns svc (transcript a3) = Inr m \<and>
    pending st = []"
  then have d1: "results d1 = Some (r1 # rs1)" "alternatives r1 = a1 # as1" "\<not> isFinal r1"
    and d2: "results d2 = Some (r2 # rs2)" "alternatives r2 = a2 # as2" "\<not> isFinal r2"
    and d3: "results d3 = Some (r3 # rs3)" "alternatives r3 = a3 # as3" "isFinal r3"
      "trim (transcript a3) \<noteq> []"
    and m: "mapTextToSigns svc (transcript a3) = Inr m"
    and idle: "pending st = []"
    by simp_all
  show "emitted
        (deliver svc socket
           (replicate n1 TurnEnds @ [Arrives (Data d1)] @
            replicate n2 TurnEnds @ [Arrives (Data d2)] @
            replicate n3 TurnEnds @ [Arrives (Data d3)] @
            replicate n4 TurnEnds @ [Arrives Ended] @
            replicate (Suc n5) TurnEnds) st) =
      emitted st @
        [(socket, TranscriptUpdate (transcript a1)
                    (orDefault 0 (altConfidence a1) (8 / 10)) False),
         (socket, TranscriptUpdate (transcript a2)
                    (orDefault 0 (altConfidence a2) (8 / 10)) False),
         (socket, TranscriptUpdate (transcript a3)
                    (orDefault 0 (altConfidence a3) (8 / 10)) True)] @
        (if n4 = 0
         then [(socket, StreamingEnded), (socket, StreamingStopped),
               (socket, SignsUpdate (transcript a3) (signs m) (resultCaptions m)
                          (resultConfidence m))]
         else [(socket, SignsUpdate (transcript a3) (signs m) (resultCaptions m)
                          (resultConfidence m)),
               (socket, StreamingEnded), (socket, StreamingStopped)])"
    by (rule sequence_order [OF d1 d2 d3 m idle])
  show "emitted (deliver svc socket [Arrives (Data d3), TurnEnds] st) =
        emitted st @
          [(socket, TranscriptUpdate (transcript a3)
                      (orDefault 0 (altConfidence a3) (8 / 10)) True),
           (socket, SignsUpdate (transcript a3) (signs m) (resultCaptions m)
                      (resultConfidence m))]"
    by (rule mapping_success_in_order [OF d3 m idle])
next
  assume h: "results d = Some (r # rs) \<and> alternatives r = a # as \<and> isFinal r \<and>
    trim (transcript a) \<noteq> [] \<and> mapTextToSigns svc (transcript a) = Inl e \<and>
    pending st' = []"
  then have d: "results d = Some (r # rs)" "alternatives r = a # as" "isFinal r"
      "trim (transcript a) \<noteq> []"
    and m: "mapTextToSigns svc (transcript a) = Inl e" and idle: "pending st' = []"
    by simp_all
  show "emitted (deliver svc socket' [Arrives (Data d), TurnEnds] st') =
        emitted st' @
          [(socket', TranscriptUpdate (transcript a)
                       (orDefault 0 (altConfidence a) (8 / 10)) True),
           (socket', MappingError ''Failed to map text to signs'' e)]"
    by (rule mapping_failure_goes_on(1) [OF d m idle])
  show "activeConnections (deliver svc socket' [Arrives (Data d), TurnEnds] st') =
        activeConnections st'"
    by (rule mapping_failure_goes_on(2) [OF d m idle])
  show "streams (deliver svc socket' [Arrives (Data d), TurnEnds] st') = streams st'"
    by (rule mapping_failure_goes_on(3) [OF d m idle])
qed

text \<open>
  Two transcripts with the fallback dictionary: one is mapped, one raises.
\<close>

lemma hello_mapped:
  "mapTextToSigns fallbackService ''hello'' =
     Inr \<lparr>signs = [\<lparr>url = ''https://your-cdn-domain.com/videos/HELLO.mp4'',
                     filename = ''HELLO.mp4'', duration = 2000\<rparr>],
          resultCaptions = [''hello''], resultConfidence = 1,
          resultMatchedPhrases = [''hello'']\<rparr>"
  by code_simp

lemma constructor_fails: "mapTextToSigns fallbackService ''constructor'' = Inl TypeError"
  by code_simp

lemma trim_hello: "trim ''hello'' = ''hello''"
  by code_simp

lemma trim_constructor: "trim ''constructor'' = ''constructor''"
  by code_simp

text \<open>
  The theorem at the transcripts \<^verbatim>\<open>hel\<close>, \<^verbatim>\<open>hello\<close>, \<^verbatim>\<open>hello\<close> (final), each event
  in a turn of its own, and at the final transcript \<^verbatim>\<open>constructor\<close>, whose mapping
  fails.
\<close>

theorem provider_sequence_witness:
  "emitted (deliver fallbackService ''s1''
              [Arrives (Data (transcriptData ''hel'' False)), TurnEnds,
               Arrives (Data (transcriptData ''hello'' False)), TurnEnds,
               Arrives (Data (transcriptData ''hello'' True)), TurnEnds,
               Arrives Ended, TurnEnds] oneSession) =
     [(''s1'', TranscriptUpdate ''hel'' (8 / 10) False),
      (''s1'', TranscriptUpdate ''hello'' (8 / 10) False),
      (''s1'', TranscriptUpdate ''hello'' (8 / 10) True),
      (''s1'', SignsUpdate ''hello''
                 [\<lparr>url = ''https://your-cdn-domain.com/videos/HELLO.mp4'',
                   filename = ''HELLO.mp4'', duration = 2000\<rparr>] [''hello''] 1),
      (''s1'', StreamingEnded),
      (''s1'', StreamingStopped)] \<and>
   emitted (deliver fallbackService ''s1''
              [Arrives (Data (transcriptData ''constructor'' True)), TurnEnds] oneSession) =
     [(''s1'', TranscriptUpdate ''constructor'' (8 / 10) True),
      (''s1'', MappingError ''Failed to map text to signs'' TypeError)] \<and>
   activeConnections (deliver fallbackService ''s1''
                        [Arrives (Data (transcriptData ''constructor'' True)), TurnEnds]
                        oneSession) =
     activeConnections oneSession"
proof -
  let ?r = "\<lambda>t f. \<lparr>alternatives = [\<lparr>transcript = t, altConfidence = None\<rparr>], isFinal = f\<rparr>"
  let ?a = "\<lambda>t. \<lparr>transcript = t, altConfidence = None\<rparr>"
  have e: "emitted oneSession = []" and p: "pending oneSession = []"
    by (simp_all add: oneSession_eq)
  note t = provider_sequence_events
      [where ?d1.0 = "transcriptData ''hel'' False" and ?r1.0 = "?r ''hel'' False"
         and ?rs1.0 = "[]" and ?a1.0 = "?a ''hel''" and ?as1.0 = "[]"
         and ?d2.0 = "transcriptData ''hello'' False" and ?r2.0 = "?r ''hello'' False"
         and ?rs2.0 = "[]" and ?a2.0 = "?a ''hello''" and ?as2.0 = "[]"
         and ?d3.0 = "transcriptData ''hello'' True" and ?r3.0 = "?r ''hello'' True"
         and ?rs3.0 = "[]" and ?a3.0 = "?a ''hello''" and ?as3.0 = "[]"
         and d = "transcriptData ''constructor'' True" and r = "?r ''constructor'' True"
         and rs = "[]" and a = "?a ''constructor''" and as = "[]"
         and svc = fallbackService and socket = "''s1''" and st = oneSession
         and socket' = "''s1''" and st' = oneSession
         and ?n1.0 = 0 and ?n2.0 = "Suc 0" and ?n3.0 = "Suc 0" and ?n4.0 = "Suc 0"
         and ?n5.0 = 0 and e = TypeError
         and m = "\<lparr>signs = [\<lparr>url = ''https://your-cdn-domain.com/videos/HELLO.mp4'',
                               filename = ''HELLO.mp4'', duration = 2000\<rparr>],
                    resultCaptions = [''hello''], resultConfidence = 1,
                    resultMatchedPhrases = [''hello'']\<rparr>"]
  show ?thesis
    using t
    by (simp add: transcriptData_def e p orDefault_def trim_hello trim_constructor
          hello_mapped constructor_fails)
qed

text \<open>
  Against claim C6 as stated: the final result and the end of the stream arrive in one
  turn.  The events observed are six, not the five of the claim, and
  \<^verbatim>\<open>signs-update\<close> comes after \<^verbatim>\<open>streaming-ended\<close> and \<^verbatim>\<open>streaming-stopped\<close>.
\<close>

theorem provider_sequence_signs_after_end:
  "emitted (deliver fallbackService ''s1''
              [Arrives (Data (transcriptData ''hel'' False)), TurnEnds,
               Arrives (Data (transcriptData ''hello'' False)), TurnEnds,
               Arrives (Data (transcriptData ''hello'' True)), Arrives Ended, TurnEnds]
              oneSession) =
     [(''s1'', TranscriptUpdate ''hel'' (8 / 10) False),
      (''s1'', TranscriptUpdate ''hello'' (8 / 10) False),
      (''s1'', TranscriptUpdate ''hello'' (8 / 10) True),
      (''s1'', StreamingEnded),
      (''s1'', StreamingStopped),
      (''s1'', SignsUpdate ''hello''
                 [\<lparr>url = ''https://your-cdn-domain.com/videos/HELLO.mp4'',
                   filename = ''HELLO.mp4'', duration = 2000\<rparr>] [''hello''] 1)]"
  by (simp add: onProviderEvent_def handleStreamingResult_def transcriptData_def trim_hello
        hello_mapped onStreamEnd_def stopStreamingRecognition_def endStream_def
        endOfTurn_def resume_def emit_def orDefault_def oneSession_eq newStream_def Let_def)

section \<open>Starting twice\<close>

text \<open>
  \<^verbatim>\<open>Map.set\<close> on the registry: the entry of the key is replaced where it stands, or a
  new entry is added at the end.
\<close>

lemma set_update_subset: "set (AList.update k v al) \<subseteq> insert (k, v) (set al)"
  by (induction al) auto

lemma distinct_refs_update:
  "distinct (map (f \<circ> snd) al) \<Longrightarrow> f v \<notin> (f \<circ> snd) ` set al \<Longrightarrow>
     distinct (map (f \<circ> snd) (AList.update k v al))"
proof (induction al)
  case Nil
  then show ?case by simp
next
  case (Cons p ps)
  show ?case
  proof (cases "fst p = k")
    case True
    with Cons.prems show ?thesis by auto
  next
    case False
    have "f (snd p) \<notin> (f \<circ> snd) ` set (AList.update k v ps)"
    proof
      assume "f (snd p) \<in> (f \<circ> snd) ` set (AList.update k v ps)"
      then obtain q where q: "q \<in> set (AList.update k v ps)" "f (snd q) = f (snd p)" by auto
      with set_update_subset [of k v ps] consider "q = (k, v)" | "q \<in> set ps" by blast
      then show False
      proof cases
        case 1
        with q Cons.prems(2) show False by auto
      next
        case 2
        with q Cons.prems(1) show False by (auto simp: image_iff)
      qed
    qed
    with False Cons show ?thesis by auto
  qed
qed

text \<open>
  A successful start keeps the registry well formed: the stream it stores is fresh.
\<close>

lemma wellFormed_start:
  assumes "wellFormed st"
  shows "wellFormed (snd (startStreamingRecognition Created now socket opts st))"
proof -
  let ?v = "\<lparr>streamRef = allocated st, config = makeConfig opts,
             startTime = now, lastActivity = now\<rparr>"
  let ?al = "AList.update socket ?v (activeConnections st)"
  from assms have keys: "distinct (map fst (activeConnections st))"
    and refs: "distinct (map (streamRef \<circ> snd) (activeConnections st))"
    and bound: "\<forall>e \<in> set (activeConnections st). streamRef (snd e) < allocated st"
    by (simp_all add: wellFormed_def list_all_iff)
  have fresh: "streamRef ?v \<notin> (streamRef \<circ> snd) ` set (activeConnections st)"
    using bound by auto
  have 1: "distinct (map fst ?al)" using keys by (rule AList.distinct_update)
  have 2: "distinct (map (streamRef \<circ> snd) ?al)"
    using refs fresh by (rule distinct_refs_update)
  have 3: "\<forall>e \<in> set ?al. streamRef (snd e) < allocated st + 1"
    using bound set_update_subset [of socket ?v "activeConnections st"] by fastforce
  show ?thesis
    using 1 2 3
    by (simp add: startStreamingRecognition_def emit_def Let_def wellFormed_def list_all_iff)
qed

text \<open>
  Claim C1, as amended.  A start on a socket that already has a session, when the
  provider hands out a stream, is accepted: nothing is thrown, the only event sent is
  \<^verbatim>\<open>streaming-started\<close>, and the entry of the socket is replaced by one that holds the
  new stream.  The registry has the same sockets as before, one entry each, and no
  stream is held by two entries: a socket has at most one stream in the registry at
  any time.
\<close>

theorem second_start_replaces:
  assumes "wellFormed st" and "map_of (activeConnections st) socket = Some old"
  shows "fst (startStreamingRecognition Created now socket opts st) = None \<and>
         emitted (snd (startStreamingRecognition Created now socket opts st)) =
           emitted st @ [(socket, StreamingStarted socket (makeConfig opts))] \<and>
         map_of (activeConnections (snd (startStreamingRecognition Created now socket opts st)))
             socket =
           Some \<lparr>streamRef = allocated st, config = makeConfig opts,
                 startTime = now, lastActivity = now\<rparr> \<and>
         map fst (activeConnections (snd (startStreamingRecognition Created now socket opts st))) =
           map fst (activeConnections st) \<and>
         wellFormed (snd (startStreamingRecognition Created now socket opts st))"
proof -
  from assms(2) have "socket \<in> set (map fst (activeConnections st))"
    by (metis map_of_eq_None_iff option.distinct(1) set_map)
  then have keys: "map fst (AList.update socket v (activeConnections st)) =
                     map fst (activeConnections st)" for v
    by (simp add: AList.update_keys)
  show ?thesis
    using wellFormed_start [OF assms(1), of now socket opts]
    by (simp add: startStreamingRecognition_def emit_def Let_def AList.update_conv' keys)
qed

text \<open>
  The state \<open>oneSession\<close> is well formed.
\<close>

lemma wellFormed_oneSession: "wellFormed oneSession"
  by (simp add: oneSession_eq wellFormed_def)

text \<open>
  The theorem at a second start of the session of \<open>oneSession\<close>.
\<close>

theorem second_start_witness:
  "fst (startStreamingRecognition Created 2000 ''s1'' noOptions oneSession) = None \<and>
   emitted (snd (startStreamingRecognition Created 2000 ''s1'' noOptions oneSession)) =
     [(''s1'', StreamingStarted ''s1'' (makeConfig noOptions))] \<and>
   map_of (activeConnections (snd (startStreamingRecognition Created 2000 ''s1'' noOptions
                                     oneSession))) ''s1'' =
     Some \<lparr>streamRef = 1, config = makeConfig noOptions,
           startTime = 2000, lastActivity = 2000\<rparr> \<and>
   map fst (activeConnections (snd (startStreamingRecognition Created 2000 ''s1'' noOptions
                                      oneSession))) = [''s1'']"
proof -
  have 1: "map_of (activeConnections oneSession) ''s1'' =
             Some \<lparr>streamRef = 0, config = makeConfig noOptions,
                   startTime = 1000, lastActivity = 1000\<rparr>"
    by (simp add: oneSession_eq)
  show ?thesis
    using second_start_replaces [OF wellFormed_oneSession 1, of 2000 noOptions]
    by (simp add: oneSession_eq)
qed

text \<open>
  Against claim C1 as stated: the session of \<open>oneSession\<close> holds stream 0, which is
  live.  A second start sends no error event, the entry now holds stream 1, and
  stream 0 has not been ended: it is as the provider created it, and no entry holds it.
\<close>

theorem second_start_overwrites_silently:
  "map_option streamRef (map_of (activeConnections oneSession) ''s1'') = Some 0 \<and>
   destroyed (streams oneSession 0) = False \<and>
   fst (startStreamingRecognition Created 2000 ''s1'' noOptions oneSession) = None \<and>
   emitted (snd (startStreamingRecognition Created 2000 ''s1'' noOptions oneSession)) =
     [(''s1'', StreamingStarted ''s1'' (makeConfig noOptions))] \<and>
   map_option streamRef
     (map_of (activeConnections (snd (startStreamingRecognition Created 2000 ''s1'' noOptions
                                        oneSession))) ''s1'') = Some 1 \<and>
   streams (snd (startStreamingRecognition Created 2000 ''s1'' noOptions oneSession)) 0 =
     \<lparr>destroyed = False, written = [], endCalls = 0\<rparr>"
  by (simp add: oneSession_eq startStreamingRecognition_def emit_def Let_def newStream_def)


section \<open>The registry stays well formed\<close>

text \<open>
  The controller starts well formed, and every handler, every provider event and the
  sweep keep it so: the hypothesis \<open>wellFormed\<close> of the theorems holds of every state
  the controller reaches.
\<close>

lemma wellFormed_cong:
  "activeConnections st' = activeConnections st \<Longrightarrow> allocated st' = allocated st \<Longrightarrow>
     wellFormed st' = wellFormed st"
  by (simp add: wellFormed_def)

lemma wellFormed_initial: "wellFormed initialController"
  by (simp add: initialController_def wellFormed_def)

lemma wellFormed_emit: "wellFormed (emit socket ev st) = wellFormed st"
  by (rule wellFormed_cong) (simp_all add: emit_def)

lemma wellFormed_endStream: "wellFormed (endStream r st) = wellFormed st"
  by (rule wellFormed_cong) (simp_all add: endStream_def)

lemma wellFormed_writeStream: "wellFormed (writeStream r b st) = wellFormed st"
  by (rule wellFormed_cong) (simp_all add: writeStream_def)

lemma wellFormed_destroyStream: "wellFormed (destroyStream r st) = wellFormed st"
  by (rule wellFormed_cong) (simp_all add: destroyStream_def)

lemma wellFormed_delete:
  assumes "wellFormed st"
  shows "wellFormed (st\<lparr>activeConnections := AList.delete k (activeConnections st)\<rparr>)"
proof -
  have "distinct (map (streamRef \<circ> snd) (AList.delete k (activeConnections st)))"
    using assms by (simp add: wellFormed_def AList.delete_eq distinct_map_filter)
  moreover have "list_all (\<lambda>e. streamRef (snd e) < allocated st)
                   (AList.delete k (activeConnections st))"
    using assms by (simp add: wellFormed_def AList.delete_eq list_all_iff)
  ultimately show ?thesis
    using assms by (simp add: wellFormed_def AList.distinct_delete)
qed

lemma update_same_ref:
  "map_of al k = Some c \<Longrightarrow> f v = f c \<Longrightarrow>
     map (f \<circ> snd) (AList.update k v al) = map (f \<circ> snd) al"
  by (induction al) (auto split: if_splits)

lemma wellFormed_touch:
  assumes "wellFormed st" and "map_of (activeConnections st) k = Some c"
  shows "wellFormed (st\<lparr>activeConnections :=
                          AList.update k (c\<lparr>lastActivity := now\<rparr>) (activeConnections st)\<rparr>)"
proof -
  let ?v = "c\<lparr>lastActivity := now\<rparr>"
  have r: "map (streamRef \<circ> snd) (AList.update k ?v (activeConnections st)) =
             map (streamRef \<circ> snd) (activeConnections st)"
    using assms(2) by (rule update_same_ref) simp
  have "list_all (\<lambda>e. streamRef (snd e) < allocated st) (activeConnections st)"
    using assms(1) by (simp add: wellFormed_def)
  then have "\<forall>x \<in> set (map (streamRef \<circ> snd) (activeConnections st)). x < allocated st"
    by (simp add: list_all_iff)
  then have "\<forall>x \<in> set (map (streamRef \<circ> snd) (AList.update k ?v (activeConnections st))).
               x < allocated st"
    by (simp only: r)
  then have b: "list_all (\<lambda>e. streamRef (snd e) < allocated st)
                  (AList.update k ?v (activeConnections st))"
    by (simp add: list_all_iff)
  show ?thesis
    using assms(1) b by (simp add: wellFormed_def AList.distinct_update r)
qed

lemma wellFormed_stop:
  "wellFormed st \<Longrightarrow> wellFormed (stopStreamingRecognition socket st)"
  by (auto simp: stopStreamingRecognition_def Let_def wellFormed_emit wellFormed_endStream
        intro!: wellFormed_delete split: option.splits)

lemma wellFormed_onStreamError:
  "wellFormed st \<Longrightarrow> wellFormed (onStreamError socket msg st)"
  by (simp add: onStreamError_def wellFormed_stop wellFormed_emit)

lemma wellFormed_onStreamEnd:
  "wellFormed st \<Longrightarrow> wellFormed (onStreamEnd socket st)"
  by (simp add: onStreamEnd_def wellFormed_stop wellFormed_emit)

lemma wellFormed_processStreamingAudio:
  assumes "wellFormed st"
  shows "wellFormed (processStreamingAudio w now socket audio st)"
proof (cases "map_of (activeConnections st) socket")
  case None
  then show ?thesis
    using assms by (simp add: processStreamingAudio_def wellFormed_emit)
next
  case (Some c)
  let ?st1 = "st\<lparr>activeConnections :=
                   AList.update socket (c\<lparr>lastActivity := now\<rparr>) (activeConnections st)\<rparr>"
  have t: "wellFormed ?st1" using assms Some by (rule wellFormed_touch)
  show ?thesis
    using t Some
    by (cases w)
      (simp_all add: processStreamingAudio_def Let_def wellFormed_emit wellFormed_writeStream
         wellFormed_onStreamError)
qed

lemma wellFormed_handleStreamingResult:
  "wellFormed (handleStreamingResult svc socket d st) = wellFormed st"
  by (rule wellFormed_cong)
    (simp_all add: handleStreamingResult_def Let_def emit_def split: option.splits list.splits)

lemma wellFormed_resumeAll: "wellFormed (resumeAll ks st) = wellFormed st"
  by (induction ks arbitrary: st) (simp_all add: resume_def wellFormed_emit split: sum.splits)

lemma wellFormed_endOfTurn: "wellFormed (endOfTurn st) = wellFormed st"
proof -
  have "wellFormed (endOfTurn st) = wellFormed (st\<lparr>pending := []\<rparr>)"
    by (simp add: endOfTurn_def wellFormed_resumeAll)
  also have "\<dots> = wellFormed st"
    by (rule wellFormed_cong) simp_all
  finally show ?thesis .
qed

lemma wellFormed_onProviderEvent:
  "wellFormed st \<Longrightarrow> wellFormed (onProviderEvent svc socket ev st)"
  by (cases ev)
    (simp_all add: onProviderEvent_def wellFormed_handleStreamingResult
       wellFormed_onStreamError wellFormed_onStreamEnd)

lemma wellFormed_deliver:
  "wellFormed st \<Longrightarrow> wellFormed (deliver svc socket steps st)"
  by (induction svc socket steps st rule: deliver.induct)
    (simp_all add: wellFormed_onProviderEvent wellFormed_endOfTurn)

lemma wellFormed_sweepEntries:
  "wellFormed st \<Longrightarrow> wellFormed (sweepEntries now es st)"
proof (induction es arbitrary: st)
  case Nil
  then show ?case by simp
next
  case (Cons e es)
  obtain k c where e: "e = (k, c)" by (cases e)
  have "wellFormed (if stale now c
                    then (let st1 = st\<lparr>activeConnections := AList.delete k (activeConnections st)\<rparr>
                          in if \<not> destroyed (streams st1 (streamRef c))
                             then endStream (streamRef c) st1 else st1)
                    else st)"
    using Cons.prems by (simp add: Let_def wellFormed_endStream wellFormed_delete)
  then show ?case
    unfolding e sweepEntries.simps by (rule Cons.IH)
qed

lemma wellFormed_cleanupTick: "wellFormed st \<Longrightarrow> wellFormed (cleanupTick now st)"
  by (simp add: cleanupTick_def wellFormed_sweepEntries)

lemma wellFormed_start_any:
  assumes "wellFormed st"
  shows "wellFormed (snd (startStreamingRecognition c now socket opts st))"
proof (cases c)
  case Created
  then show ?thesis using assms by (simp add: wellFormed_start)
next
  case ReturnedNothing
  then show ?thesis
    using assms by (simp add: startStreamingRecognition_def Let_def wellFormed_emit)
next
  case (Threw msg)
  then show ?thesis
    using assms by (simp add: startStreamingRecognition_def Let_def wellFormed_emit)
qed

section \<open>The cleanup sweep\<close>

text \<open>
  What one sweep does to the event log, to the registry and to each stream.
\<close>

lemma emitted_sweepEntries: "emitted (sweepEntries now es st) = emitted st"
  by (induction now es st rule: sweepEntries.induct) (simp_all add: endStream_def Let_def)

lemma registry_sweepEntries:
  "map_of (activeConnections (sweepEntries now es st)) k =
     (if \<exists>c. (k, c) \<in> set es \<and> stale now c then None
      else map_of (activeConnections st) k)"
proof (induction now es st rule: sweepEntries.induct)
  case (1 now st)
  then show ?case by simp
next
  case (2 now socketId connection entries st)
  show ?case
    by (simp add: 2 endStream_def Let_def AList.delete_conv') blast
qed

lemma streams_sweepEntries:
  "distinct (map (streamRef \<circ> snd) es) \<Longrightarrow>
   streams (sweepEntries now es st) r =
     (if (\<exists>e \<in> set es. streamRef (snd e) = r \<and> stale now (snd e)) \<and>
         \<not> destroyed (streams st r)
      then (streams st r)\<lparr>endCalls := endCalls (streams st r) + 1\<rparr>
      else streams st r)"
proof (induction es arbitrary: st)
  case Nil
  then show ?case by simp
next
  case (Cons e entries)
  obtain socketId connection where e: "e = (socketId, connection)" by (cases e)
  from Cons.prems have d: "distinct (map (streamRef \<circ> snd) entries)"
    by (simp add: comp_def)
  from Cons.prems e
  have fresh: "\<forall>x \<in> set entries. streamRef (snd x) \<noteq> streamRef connection"
    by force
  note IH = Cons.IH [OF d]
  show ?case
  proof (cases "stale now connection \<and> \<not> destroyed (streams st (streamRef connection))")
    case True
    then show ?thesis
      using fresh by (auto simp: e IH endStream_def Let_def)
  next
    case False
    then show ?thesis
      by (auto simp: e IH endStream_def Let_def)
  qed
qed

text \<open>
  Claim C8, as amended.  In every sweep, a registered session whose \<open>lastActivity\<close> is
  more than 300000 ms (5 minutes) before the time of the sweep is removed from the
  registry, and \<^verbatim>\<open>end\<close> is called on its stream exactly once, unless the stream is
  already destroyed, in which case it is not called.  The stream is left exactly as
  \<open>stopStreamingRecognition\<close> would leave it.  The sweep does this itself, not through
  \<open>stopStreamingRecognition\<close>: it sends no event.
\<close>

theorem cleanupTick_removes_stale:
  assumes "wellFormed st" and "map_of (activeConnections st) socket = Some connection"
    and "now - lastActivity connection > 300000"
  shows "map_of (activeConnections (cleanupTick now st)) socket = None \<and>
         endCalls (streams (cleanupTick now st) (streamRef connection)) =
           endCalls (streams st (streamRef connection)) +
             (if destroyed (streams st (streamRef connection)) then 0 else 1) \<and>
         streams (cleanupTick now st) (streamRef connection) =
           streams (stopStreamingRecognition socket st) (streamRef connection) \<and>
         emitted (cleanupTick now st) = emitted st"
proof -
  from assms(2) have mem: "(socket, connection) \<in> set (activeConnections st)"
    by (rule map_of_SomeD)
  from assms(3) have st: "stale now connection"
    by (simp add: stale_def timeout_def)
  from assms(1) have d: "distinct (map (streamRef \<circ> snd) (activeConnections st))"
    by (simp add: wellFormed_def)
  have ex: "\<exists>e \<in> set (activeConnections st).
              streamRef (snd e) = streamRef connection \<and> stale now (snd e)"
    using mem st by force
  have 1: "map_of (activeConnections (cleanupTick now st)) socket = None"
    using mem st by (auto simp: cleanupTick_def registry_sweepEntries)
  have 2: "streams (cleanupTick now st) (streamRef connection) =
             (if \<not> destroyed (streams st (streamRef connection))
              then (streams st (streamRef connection))
                     \<lparr>endCalls := endCalls (streams st (streamRef connection)) + 1\<rparr>
              else streams st (streamRef connection))"
    using ex by (simp add: cleanupTick_def streams_sweepEntries [OF d])
  have 3: "streams (stopStreamingRecognition socket st) (streamRef connection) =
             (if \<not> destroyed (streams st (streamRef connection))
              then (streams st (streamRef connection))
                     \<lparr>endCalls := endCalls (streams st (streamRef connection)) + 1\<rparr>
              else streams st (streamRef connection))"
    using assms(2) by (simp add: stopStreamingRecognition_def emit_def endStream_def Let_def)
  have 4: "emitted (cleanupTick now st) = emitted st"
    by (simp add: cleanupTick_def emitted_sweepEntries)
  show ?thesis
    using 1 4 by (simp add: 2 3)
qed

text \<open>
  The theorem at a sweep at time 400000 over the session of \<open>oneSession\<close>, last
  active at time 1000.
\<close>

theorem cleanupTick_witness:
  "map_of (activeConnections (cleanupTick 400000 oneSession)) ''s1'' = None \<and>
   endCalls (streams (cleanupTick 400000 oneSession) 0) = 1 \<and>
   streams (cleanupTick 400000 oneSession) 0 =
     streams (stopStreamingRecognition ''s1'' oneSession) 0 \<and>
   emitted (cleanupTick 400000 oneSession) = []"
proof -
  let ?c = "\<lparr>streamRef = 0, config = makeConfig noOptions,
             startTime = 1000, lastActivity = 1000\<rparr>"
  have 1: "map_of (activeConnections oneSession) ''s1'' = Some ?c"
    by (simp add: oneSession_eq)
  have 2: "400000 - lastActivity ?c > 300000" by simp
  have 3: "emitted oneSession = []" "endCalls (streams oneSession 0) = 0"
    "\<not> destroyed (streams oneSession 0)"
    by (simp_all add: oneSession_eq newStream_def)
  note t = cleanupTick_removes_stale [OF wellFormed_oneSession 1 2]
  from t have a: "map_of (activeConnections (cleanupTick 400000 oneSession)) ''s1'' = None"
    by (rule conjunct1)
  from t [THEN conjunct2, THEN conjunct1]
  have b: "endCalls (streams (cleanupTick 400000 oneSession) 0) = 1"
    by (simp add: 3)
  from t [THEN conjunct2, THEN conjunct2, THEN conjunct1]
  have c: "streams (cleanupTick 400000 oneSession) 0 =
             streams (stopStreamingRecognition ''s1'' oneSession) 0"
    by simp
  from t [THEN conjunct2, THEN conjunct2, THEN conjunct2]
  have d: "emitted (cleanupTick 400000 oneSession) = []"
    by (simp add: 3)
  from a b c d show ?thesis by blast
qed

text \<open>
  Against claim C8 as stated: the sweep that removes the stale session of
  \<open>oneSession\<close> sends nothing, where a stop of the same session sends
  \<^verbatim>\<open>streaming-stopped\<close>: the sweep is not the cleanup path of a stop.
\<close>

theorem cleanupTick_sends_no_stopped:
  "map_option lastActivity (map_of (activeConnections oneSession) ''s1'') = Some 1000 \<and>
   emitted (cleanupTick 400000 oneSession) = [] \<and>
   emitted (stopStreamingRecognition ''s1'' oneSession) = [(''s1'', StreamingStopped)]"
  by (simp add: oneSession_eq cleanupTick_def stale_def timeout_def endStream_def
        stopStreamingRecognition_def emit_def Let_def newStream_def)

end
